theory Spec2Isabelle
  imports Main "HOL-Library.Product_Lexorder"
begin

section \<open>Python values used by \<^verbatim>\<open>uqcsbot/whatweekisit.py\<close>\<close>

subsection \<open>Strings\<close>

text \<open>
  A Python \<^verbatim>\<open>str\<close> is a sequence of Unicode code points, so it is modelled as a list of
  naturals. \<open>str\<close> turns an ASCII literal into such a list.
\<close>

type_synonym pystr = "nat list"

definition str :: "string \<Rightarrow> pystr" where
  "str s = map of_char s"

text \<open>\<^verbatim>\<open>s.startswith(p)\<close> and \<^verbatim>\<open>sub in s\<close>.\<close>

fun startswith :: "'a list \<Rightarrow> 'a list \<Rightarrow> bool" where
  "startswith s [] = True"
| "startswith [] (p # ps) = False"
| "startswith (c # cs) (p # ps) = (c = p \<and> startswith cs ps)"

fun contains :: "'a list \<Rightarrow> 'a list \<Rightarrow> bool" where
  "contains sub [] = (sub = [])"
| "contains sub (c # cs) = (startswith (c # cs) sub \<or> contains sub cs)"

text \<open>
  \<^verbatim>\<open>s.split(sep, 1)[0]\<close> for a non-empty separator: the text in front of the first
  occurrence of \<open>sep\<close>, the whole of \<open>s\<close> when there is none.
\<close>

fun split_head :: "'a list \<Rightarrow> 'a list \<Rightarrow> 'a list" where
  "split_head sep [] = []"
| "split_head sep (c # cs) = (if startswith (c # cs) sep then [] else c # split_head sep cs)"

text \<open>\<^verbatim>\<open>s.replace(old, new)\<close> for a one-character \<open>old\<close>.\<close>

definition replace_char :: "'a \<Rightarrow> 'a list \<Rightarrow> 'a list \<Rightarrow> 'a list" where
  "replace_char old new s = concat (map (\<lambda>c. if c = old then new else [c]) s)"

text \<open>
  \<^verbatim>\<open>str.isspace\<close> on one code point, which is also what \<^verbatim>\<open>\s\<close> matches in a
  \<^verbatim>\<open>str\<close> pattern, and \<^verbatim>\<open>s.strip()\<close>.
\<close>

definition isspace :: "nat \<Rightarrow> bool" where
  "isspace c \<longleftrightarrow>
     (9 \<le> c \<and> c \<le> 13) \<or> (28 \<le> c \<and> c \<le> 32) \<or> c = 133 \<or> c = 160 \<or> c = 5760 \<or>
     (8192 \<le> c \<and> c \<le> 8202) \<or> c = 8232 \<or> c = 8233 \<or> c = 8239 \<or> c = 8287 \<or> c = 12288"

definition strip :: "pystr \<Rightarrow> pystr" where
  "strip s = rev (dropWhile isspace (rev (dropWhile isspace s)))"

subsection \<open>Errors\<close>

datatype error = ValueError | AttributeError | TypeError

subsection \<open>Dates and times\<close>

text \<open>
  The only time zone the program ever attaches is \<^verbatim>\<open>ZoneInfo("Australia/Brisbane")\<close>;
  a \<^verbatim>\<open>datetime\<close> fresh from \<^verbatim>\<open>strptime\<close> has none.
\<close>

datatype tz = Australia_Brisbane

record datetime =
  year :: int
  month :: int
  day :: int
  hour :: int
  minute :: int
  second :: int
  microsecond :: int
  tzinfo :: "tz option"

definition is_leap :: "int \<Rightarrow> bool" where
  "is_leap y \<longleftrightarrow> y mod 4 = 0 \<and> (y mod 100 \<noteq> 0 \<or> y mod 400 = 0)"

definition days_before_year :: "int \<Rightarrow> int" where
  "days_before_year y = (y - 1) * 365 + (y - 1) div 4 - (y - 1) div 100 + (y - 1) div 400"

definition days_in_month :: "int \<Rightarrow> int \<Rightarrow> int" where
  "days_in_month y m =
     (if m = 2 then (if is_leap y then 29 else 28)
      else if m = 4 \<or> m = 6 \<or> m = 9 \<or> m = 11 then 30 else 31)"

definition days_before_month :: "int \<Rightarrow> int \<Rightarrow> int" where
  "days_before_month y m =
     [- 1, 0, 31, 59, 90, 120, 151, 181, 212, 243, 273, 304, 334] ! nat m
       + (if m > 2 \<and> is_leap y then 1 else 0)"

definition ymd2ord :: "int \<Rightarrow> int \<Rightarrow> int \<Rightarrow> int" where
  "ymd2ord y m d = days_before_year y + days_before_month y m + d"

definition toordinal :: "datetime \<Rightarrow> int" where
  "toordinal dt = ymd2ord (year dt) (month dt) (day dt)"

text \<open>What the \<^verbatim>\<open>datetime\<close> constructor accepts; every Python \<^verbatim>\<open>datetime\<close> satisfies it.\<close>

definition valid_date :: "int \<Rightarrow> int \<Rightarrow> int \<Rightarrow> bool" where
  "valid_date y m d \<longleftrightarrow>
     1 \<le> y \<and> y \<le> 9999 \<and> 1 \<le> m \<and> m \<le> 12 \<and> 1 \<le> d \<and> d \<le> days_in_month y m"

definition valid_datetime :: "datetime \<Rightarrow> bool" where
  "valid_datetime dt \<longleftrightarrow>
     valid_date (year dt) (month dt) (day dt) \<and>
     0 \<le> hour dt \<and> hour dt < 24 \<and> 0 \<le> minute dt \<and> minute dt < 60 \<and>
     0 \<le> second dt \<and> second dt < 60 \<and> 0 \<le> microsecond dt \<and> microsecond dt < 1000000"

text \<open>
  Two datetimes carrying the same \<^verbatim>\<open>tzinfo\<close> are compared field by field, as tuples;
  a naive one against an aware one, or \<^verbatim>\<open>None\<close> against a datetime, is a
  \<^verbatim>\<open>TypeError\<close>.
\<close>

definition dt_tuple :: "datetime \<Rightarrow> int \<times> int \<times> int \<times> int \<times> int \<times> int \<times> int" where
  "dt_tuple dt = (year dt, month dt, day dt, hour dt, minute dt, second dt, microsecond dt)"

fun dt_le :: "datetime option \<Rightarrow> datetime option \<Rightarrow> error + bool" where
  "dt_le (Some a) (Some b) =
     (if tzinfo a = tzinfo b then Inr (dt_tuple a \<le> dt_tuple b) else Inl TypeError)"
| "dt_le _ _ = Inl TypeError"

text \<open>
  \<^verbatim>\<open>(a - b).days\<close> for two datetimes with the same \<^verbatim>\<open>tzinfo\<close>: the difference is the
  \<^verbatim>\<open>timedelta\<close> of the ordinals, the seconds of the day and the microseconds, and
  \<^verbatim>\<open>timedelta\<close> normalises it so that seconds and microseconds are non-negative, which
  leaves the floor of the difference in days.
\<close>

definition day_seconds :: "datetime \<Rightarrow> int" where
  "day_seconds dt = second dt + minute dt * 60 + hour dt * 3600"

definition sub_days :: "datetime \<Rightarrow> datetime \<Rightarrow> int" where
  "sub_days a b =
     ((toordinal a - toordinal b) * 86400000000
        + (day_seconds a - day_seconds b) * 1000000
        + (microsecond a - microsecond b)) div 86400000000"

text \<open>\<^verbatim>\<open>dt.strftime("%A")\<close> in the C locale; \<^verbatim>\<open>weekday()\<close> counts Monday as 0.\<close>

definition dt_weekday :: "datetime \<Rightarrow> int" where
  "dt_weekday dt = (toordinal dt + 6) mod 7"

definition strftime_A :: "datetime \<Rightarrow> pystr" where
  "strftime_A dt =
     [str ''Monday'', str ''Tuesday'', str ''Wednesday'', str ''Thursday'', str ''Friday'',
      str ''Saturday'', str ''Sunday''] ! nat (dt_weekday dt)"

section \<open>The week resolver\<close>

text \<open>
  \<^verbatim>\<open>class Semester(NamedTuple)\<close>. The fields are declared as \<^verbatim>\<open>datetime\<close>, but
  \<^verbatim>\<open>get_semester_times\<close> builds the tuple from a dictionary whose dates start as
  \<^verbatim>\<open>None\<close>, so the model keeps them optional.
\<close>

record Semester =
  name :: pystr
  start_date :: "datetime option"
  end_date :: "datetime option"

text \<open>
  \<^verbatim>\<open>get_semester_week\<close>. The chained comparison evaluates
  \<^verbatim>\<open>start_date <= checked_date\<close> first and \<^verbatim>\<open>checked_date <= end_date\<close> only when
  the first holds.
\<close>

fun get_semester_week :: "Semester list \<Rightarrow> datetime \<Rightarrow> error + (pystr \<times> int \<times> pystr) option" where
  "get_semester_week [] checked_date = Inr None"
| "get_semester_week (semester # rest) checked_date =
     (case dt_le (start_date semester) (Some checked_date) of
        Inl e \<Rightarrow> Inl e
      | Inr False \<Rightarrow> get_semester_week rest checked_date
      | Inr True \<Rightarrow>
          (case dt_le (Some checked_date) (end_date semester) of
             Inl e \<Rightarrow> Inl e
           | Inr False \<Rightarrow> get_semester_week rest checked_date
           | Inr True \<Rightarrow>
               (let days_since_start = sub_days checked_date (the (start_date semester));
                    week_index = days_since_start div 7 + 1;
                    weekday = strftime_A checked_date;
                    semester_name = name semester
                in Inr (Some (semester_name, week_index, weekday)))))"

section \<open>The command's date format\<close>

text \<open>
  \<^verbatim>\<open>DATE_FORMAT = "%d/%m/%Y"\<close>. \<^verbatim>\<open>strftime\<close> hands the format to the C library,
  which writes the day and the month with two digits and the year as a plain decimal
  number, without leading zeros: the first of January of the year 999 is
  \<^verbatim>\<open>01/01/999\<close>.
\<close>

definition digit :: "int \<Rightarrow> nat" where
  "digit n = 48 + nat n"

definition pad2 :: "int \<Rightarrow> pystr" where
  "pad2 n = [digit (n div 10), digit (n mod 10)]"

fun decimal :: "nat \<Rightarrow> pystr" where
  "decimal n = (if n < 10 then [48 + n] else decimal (n div 10) @ [48 + n mod 10])"

declare decimal.simps [simp del]

definition date_to_string :: "datetime \<Rightarrow> pystr" where
  "date_to_string date =
     pad2 (day date) @ str ''/'' @ pad2 (month date) @ str ''/'' @ decimal (nat (year date))"

subsection \<open>\<^verbatim>\<open>datetime.strptime\<close>\<close>

text \<open>
  \<^verbatim>\<open>strptime\<close> turns the format into a regular expression, matches it against the
  start of the text with backtracking, and rejects the text when no match exists or when
  the first match leaves text over. Each directive is modelled as the list of its possible
  matches, best first, each with the value read and the text that remains; the head of the
  combined list is the match the regular expression finds.

  \<^verbatim>\<open>\d\<close> matches every character with a decimal digit value in the Unicode database,
  and \<^verbatim>\<open>int\<close> reads those values: in the database of CPython 3.11 (Unicode 14.0) they
  are 66 runs of ten characters, zero to nine, and \<open>decimal_zeros\<close> lists the zero of each.
\<close>

definition decimal_zeros :: "nat list" where
  "decimal_zeros =
     [48, 1632, 1776, 1984, 2406, 2534, 2662, 2790, 2918, 3046,
      3174, 3302, 3430, 3558, 3664, 3792, 3872, 4160, 4240, 6112,
      6160, 6470, 6608, 6784, 6800, 6992, 7088, 7232, 7248, 42528,
      43216, 43264, 43472, 43504, 43600, 44016, 65296, 66720, 68912, 69734,
      69872, 69942, 70096, 70384, 70736, 70864, 71248, 71360, 71472, 71904,
      72016, 72784, 73040, 73120, 92768, 92864, 93008, 120782, 120792, 120802,
      120812, 120822, 123200, 123632, 125264, 130032]"

definition is_digit :: "nat \<Rightarrow> bool" where
  "is_digit c \<longleftrightarrow> list_ex (\<lambda>z. z \<le> c \<and> c \<le> z + 9) decimal_zeros"

definition digit_val :: "nat \<Rightarrow> int" where
  "digit_val c =
     (case find (\<lambda>z. z \<le> c \<and> c \<le> z + 9) decimal_zeros of
        None \<Rightarrow> 0
      | Some z \<Rightarrow> int c - int z)"

text \<open>The classes \<^verbatim>\<open>[1-9]\<close>, \<^verbatim>\<open>[0-1]\<close> and the like hold ASCII digits only.\<close>

definition is_digit19 :: "nat \<Rightarrow> bool" where
  "is_digit19 c \<longleftrightarrow> 49 \<le> c \<and> c \<le> 57"

text \<open>\<^verbatim>\<open>%d\<close> is \<^verbatim>\<open>3[0-1]|[1-2]\d|0[1-9]|[1-9]| [1-9]\<close>.\<close>

definition re_d :: "pystr \<Rightarrow> (int \<times> pystr) list" where
  "re_d s =
     (case s of c1 # c2 # r \<Rightarrow>
        (if c1 = 51 \<and> (c2 = 48 \<or> c2 = 49) then [(30 + digit_val c2, r)] else []) @
        (if (c1 = 49 \<or> c1 = 50) \<and> is_digit c2 then [(10 * digit_val c1 + digit_val c2, r)] else []) @
        (if c1 = 48 \<and> is_digit19 c2 then [(digit_val c2, r)] else [])
      | _ \<Rightarrow> []) @
     (case s of c1 # r \<Rightarrow> (if is_digit19 c1 then [(digit_val c1, r)] else []) | _ \<Rightarrow> []) @
     (case s of c1 # c2 # r \<Rightarrow> (if c1 = 32 \<and> is_digit19 c2 then [(digit_val c2, r)] else [])
      | _ \<Rightarrow> [])"

text \<open>\<^verbatim>\<open>%m\<close> is \<^verbatim>\<open>1[0-2]|0[1-9]|[1-9]\<close>.\<close>

definition re_m :: "pystr \<Rightarrow> (int \<times> pystr) list" where
  "re_m s =
     (case s of c1 # c2 # r \<Rightarrow>
        (if c1 = 49 \<and> 48 \<le> c2 \<and> c2 \<le> 50 then [(10 + digit_val c2, r)] else []) @
        (if c1 = 48 \<and> is_digit19 c2 then [(digit_val c2, r)] else [])
      | _ \<Rightarrow> []) @
     (case s of c1 # r \<Rightarrow> (if is_digit19 c1 then [(digit_val c1, r)] else []) | _ \<Rightarrow> [])"

text \<open>\<^verbatim>\<open>%Y\<close> is \<^verbatim>\<open>\d\d\d\d\<close>.\<close>

definition re_Y :: "pystr \<Rightarrow> (int \<times> pystr) list" where
  "re_Y s =
     (case s of c1 # c2 # c3 # c4 # r \<Rightarrow>
        (if is_digit c1 \<and> is_digit c2 \<and> is_digit c3 \<and> is_digit c4
         then [(1000 * digit_val c1 + 100 * digit_val c2 + 10 * digit_val c3 + digit_val c4, r)]
         else [])
      | _ \<Rightarrow> [])"

text \<open>
  \<^verbatim>\<open>%b\<close> is the alternation of the abbreviated month names of the C locale, matched
  without regard to case; the month is the position of the lower-cased match in that list.
\<close>

definition month_abbr :: "pystr list" where
  "month_abbr = [str ''jan'', str ''feb'', str ''mar'', str ''apr'', str ''may'', str ''jun'',
                 str ''jul'', str ''aug'', str ''sep'', str ''oct'', str ''nov'', str ''dec'']"

definition lower :: "nat \<Rightarrow> nat" where
  "lower c = (if 65 \<le> c \<and> c \<le> 90 then c + 32 else c)"

definition re_b :: "pystr \<Rightarrow> (int \<times> pystr) list" where
  "re_b s =
     (case s of c1 # c2 # c3 # r \<Rightarrow>
        [(int i + 1, r). i \<leftarrow> [0..<12], month_abbr ! i = [lower c1, lower c2, lower c3]]
      | _ \<Rightarrow> [])"

text \<open>White space in a format is \<^verbatim>\<open>\s+\<close>: greedy, giving characters back one at a time.\<close>

definition re_ws :: "pystr \<Rightarrow> pystr list" where
  "re_ws s = map (\<lambda>k. drop k s) (rev [1..<Suc (length (takeWhile isspace s))])"

definition re_lit :: "nat \<Rightarrow> pystr \<Rightarrow> pystr list" where
  "re_lit c s = (case s of x # r \<Rightarrow> (if x = c then [r] else []) | _ \<Rightarrow> [])"

text \<open>The date the match denotes is built by the \<^verbatim>\<open>datetime\<close> constructor, which checks it.\<close>

definition mk_datetime :: "int \<Rightarrow> int \<Rightarrow> int \<Rightarrow> error + datetime" where
  "mk_datetime y m d =
     (if valid_date y m d
      then Inr \<lparr>year = y, month = m, day = d, hour = 0, minute = 0, second = 0, microsecond = 0,
                tzinfo = None\<rparr>
      else Inl ValueError)"

definition finish_match :: "(int \<times> int \<times> int \<times> pystr) list \<Rightarrow> error + datetime" where
  "finish_match ms =
     (case ms of
        [] \<Rightarrow> Inl ValueError
      | (d, m, y, r) # _ \<Rightarrow> (if r \<noteq> [] then Inl ValueError else mk_datetime y m d))"

text \<open>\<^verbatim>\<open>datetime.strptime(s, "%d/%m/%Y")\<close> and \<^verbatim>\<open>datetime.strptime(s, "%d %b %Y")\<close>.\<close>

definition strptime_dmY :: "pystr \<Rightarrow> error + datetime" where
  "strptime_dmY s =
     finish_match
       [(d, m, y, r5). (d, r1) \<leftarrow> re_d s, r2 \<leftarrow> re_lit 47 r1, (m, r3) \<leftarrow> re_m r2,
                       r4 \<leftarrow> re_lit 47 r3, (y, r5) \<leftarrow> re_Y r4]"

definition strptime_dbY :: "pystr \<Rightarrow> error + datetime" where
  "strptime_dbY s =
     finish_match
       [(d, m, y, r5). (d, r1) \<leftarrow> re_d s, r2 \<leftarrow> re_ws r1, (m, r3) \<leftarrow> re_b r2,
                       r4 \<leftarrow> re_ws r3, (y, r5) \<leftarrow> re_Y r4]"

definition string_to_date :: "pystr \<Rightarrow> error + datetime" where
  "string_to_date date =
     (case strptime_dmY date of
        Inl e \<Rightarrow> Inl e
      | Inr dt \<Rightarrow> Inr (dt\<lparr>tzinfo := Some Australia_Brisbane\<rparr>))"

section \<open>The calendar parser\<close>

text \<open>
  \<^verbatim>\<open>BeautifulSoup(markup, "html.parser")\<close> is library code; the embedding starts from the
  tree it returns. A node is a piece of text or a tag with its name, the value of its
  \<^verbatim>\<open>class\<close> attribute (a list of class names, \<^verbatim>\<open>None\<close> when the attribute is absent)
  and its contents. Comments and other strings that \<^verbatim>\<open>get_text\<close> skips are left out.
\<close>

datatype node = NavigableString pystr | Tag pystr "pystr list option" "node list"

fun get_text :: "node \<Rightarrow> pystr" where
  "get_text (NavigableString s) = s"
| "get_text (Tag t c ch) = concat (map get_text ch)"

text \<open>The tags of a subtree in document order, the root first.\<close>

fun tags :: "node \<Rightarrow> node list" where
  "tags (NavigableString s) = []"
| "tags (Tag t c ch) = Tag t c ch # concat (map tags ch)"

definition descendants :: "node \<Rightarrow> node list" where
  "descendants n = (case n of NavigableString s \<Rightarrow> [] | Tag t c ch \<Rightarrow> concat (map tags ch))"

definition is_tag :: "pystr \<Rightarrow> node \<Rightarrow> bool" where
  "is_tag nm n = (case n of NavigableString s \<Rightarrow> False | Tag t c ch \<Rightarrow> t = nm)"

text \<open>\<^verbatim>\<open>element.name == "div" and element.get("class") == ["uq-accordion__item"]\<close>\<close>

definition is_accordion_item :: "node \<Rightarrow> bool" where
  "is_accordion_item n =
     (case n of NavigableString s \<Rightarrow> False
      | Tag t c ch \<Rightarrow> t = str ''div'' \<and> c = Some [str ''uq-accordion__item''])"

text \<open>The filter of \<^verbatim>\<open>find("div", class_="uq-accordion__content")\<close>: one of the classes is it.\<close>

definition is_accordion_content :: "node \<Rightarrow> bool" where
  "is_accordion_content n =
     (case n of NavigableString s \<Rightarrow> False
      | Tag t c ch \<Rightarrow>
          t = str ''div'' \<and> (case c of None \<Rightarrow> False | Some cs \<Rightarrow> str ''uq-accordion__content'' \<in> set cs))"

text \<open>
  The separator of \<^verbatim>\<open>get_date\<close> as the source file spells it: the three characters
  U+00E2, U+20AC, U+201C, which is an en dash read in the wrong encoding.
\<close>

definition dash :: pystr where
  "dash = [226, 8364, 8220]"

definition date_str :: "pystr \<Rightarrow> pystr" where
  "date_str text = strip (replace_char 160 (str '' '') (split_head dash text))"

definition get_date :: "pystr \<Rightarrow> pystr \<Rightarrow> error + datetime" where
  "get_date text year_text =
     (case strptime_dbY (date_str text @ str '' '' @ year_text) of
        Inl e \<Rightarrow> Inl e
      | Inr dt \<Rightarrow> Inr (dt\<lparr>tzinfo := Some Australia_Brisbane\<rparr>))"

definition is_start_line :: "pystr \<Rightarrow> bool" where
  "is_start_line text = contains (str ''Classes start'') text"

definition is_end_line :: "pystr \<Rightarrow> pystr \<Rightarrow> bool" where
  "is_end_line semester_name text \<longleftrightarrow>
     contains (semester_name @ str '' classes end'') text \<or> contains (semester_name @ str '' ends'') text"

text \<open>The loop over the \<^verbatim>\<open>li\<close> events of one block, each given by its text.\<close>

fun events_loop :: "pystr \<Rightarrow> pystr list \<Rightarrow> Semester \<Rightarrow> error + Semester" where
  "events_loop year_text [] semester = Inr semester"
| "events_loop year_text (text # rest) semester =
     (if is_start_line text then
        (case get_date text year_text of
           Inl e \<Rightarrow> Inl e
         | Inr dt \<Rightarrow> events_loop year_text rest (semester\<lparr>start_date := Some dt\<rparr>))
      else if is_end_line (name semester) text then
        (case get_date text year_text of
           Inl e \<Rightarrow> Inl e
         | Inr dt \<Rightarrow> events_loop year_text rest (semester\<lparr>end_date := Some dt\<rparr>))
      else events_loop year_text rest semester)"

text \<open>
  The loop over \<^verbatim>\<open>year.find_all_next()\<close>, the tags that follow the year heading in
  document order. Both \<^verbatim>\<open>break\<close>s leave it with the semesters collected so far.
\<close>

fun elements_loop :: "pystr \<Rightarrow> node list \<Rightarrow> Semester list \<Rightarrow> error + Semester list" where
  "elements_loop year_text [] semesters = Inr semesters"
| "elements_loop year_text (element # rest) semesters =
     (if is_tag (str ''h3'') element then Inr semesters
      else if is_accordion_item element then
        (case find (is_tag (str ''h4'')) (descendants element) of
           None \<Rightarrow> Inl AttributeError
         | Some h4 \<Rightarrow>
             (let semester_name = get_text h4 in
              if semester_name \<noteq> str ''Semester 1'' \<and> semester_name \<noteq> str ''Semester 2''
              then Inr semesters
              else
                (case find is_accordion_content (descendants element) of
                   None \<Rightarrow> Inl AttributeError
                 | Some semester_content \<Rightarrow>
                     (case events_loop year_text
                             (map get_text (filter (is_tag (str ''li'')) (descendants semester_content)))
                             \<lparr>name = semester_name, start_date = None, end_date = None\<rparr> of
                        Inl e \<Rightarrow> Inl e
                      | Inr semester \<Rightarrow> elements_loop year_text rest (semesters @ [semester])))))
      else elements_loop year_text rest semesters)"

text \<open>The loop over the \<^verbatim>\<open>h3\<close> year headings, walking the document's tags in order.\<close>

fun years_loop :: "node list \<Rightarrow> Semester list \<Rightarrow> error + Semester list" where
  "years_loop [] semesters = Inr semesters"
| "years_loop (element # rest) semesters =
     (if is_tag (str ''h3'') element then
        (case elements_loop (get_text element) rest semesters of
           Inl e \<Rightarrow> Inl e
         | Inr semesters' \<Rightarrow> years_loop rest semesters')
      else years_loop rest semesters)"

definition get_semester_times :: "node list \<Rightarrow> error + Semester list" where
  "get_semester_times soup = years_loop (concat (map tags soup)) []"

section \<open>The command\<close>

text \<open>\<^verbatim>\<open>min\<close> and \<^verbatim>\<open>max\<close> of a list, which raise on the empty list.\<close>

fun py_min :: "int list \<Rightarrow> error + int" where
  "py_min [] = Inl ValueError"
| "py_min (x # xs) = Inr (fold min xs x)"

fun py_max :: "int list \<Rightarrow> error + int" where
  "py_max [] = Inl ValueError"
| "py_max (x # xs) = Inr (fold max xs x)"

text \<open>
  \<^verbatim>\<open>WhatWeekIsIt.whatweekisit\<close> from the call of \<^verbatim>\<open>get_semester_week\<close> on: the reply
  when the date is in no semester, and otherwise the tuple that the rest of the command
  words into an answer. That rest is not modelled: it picks a phrase at random, and when
  the command was given no date it raises \<^verbatim>\<open>UnboundLocalError\<close>, since \<^verbatim>\<open>message\<close> is
  assigned only under \<^verbatim>\<open>if date != None\<close>. The semesters and the year numbers are those
  the command reads off the calendar page.
\<close>

datatype reply = Message pystr | Week pystr int pystr

definition not_in_session :: "pystr \<Rightarrow> pystr" where
  "not_in_session date = str ''University isn'' @ [39] @ str ''t in session on '' @ date @ str '', enjoy the break :)''"

definition out_of_bounds :: "pystr \<Rightarrow> pystr" where
  "out_of_bounds date = str ''Sorry, '' @ date @ str '' is currently out of bounds.''"

definition whatweekisit :: "Semester list \<Rightarrow> int list \<Rightarrow> datetime \<Rightarrow> error + reply" where
  "whatweekisit semesters year_numbers check_date =
     (case get_semester_week semesters check_date of
        Inl e \<Rightarrow> Inl e
      | Inr None \<Rightarrow>
          (let date = date_to_string check_date in
           case py_min year_numbers of
             Inl e \<Rightarrow> Inl e
           | Inr lo \<Rightarrow>
               if lo \<le> year check_date then
                 (case py_max year_numbers of
                    Inl e \<Rightarrow> Inl e
                  | Inr hi \<Rightarrow>
                      if year check_date \<le> hi then Inr (Message (not_in_session date))
                      else Inr (Message (out_of_bounds date)))
               else Inr (Message (out_of_bounds date)))
      | Inr (Some (semester_name, week_index, weekday)) \<Rightarrow> Inr (Week semester_name week_index weekday))"

section \<open>Vocabulary of the statements\<close>

text \<open>
  \<open>in_range s d\<close> is the containment test \<^verbatim>\<open>s.start_date <= d <= s.end_date\<close> on a
  semester that has both dates. \<open>typed_semester z s\<close> says that \<open>s\<close> is as
  \<^verbatim>\<open>class Semester\<close> declares it, both dates present, and that they carry the
  \<^verbatim>\<open>tzinfo\<close> \<open>z\<close>, so that comparing them with a date of that zone raises nothing.
\<close>

definition in_range :: "Semester \<Rightarrow> datetime \<Rightarrow> bool" where
  "in_range s d \<longleftrightarrow>
     (case (start_date s, end_date s) of
        (Some a, Some b) \<Rightarrow> dt_tuple a \<le> dt_tuple d \<and> dt_tuple d \<le> dt_tuple b
      | _ \<Rightarrow> False)"

definition typed_semester :: "tz option \<Rightarrow> Semester \<Rightarrow> bool" where
  "typed_semester z s \<longleftrightarrow>
     (case (start_date s, end_date s) of
        (Some a, Some b) \<Rightarrow> tzinfo a = z \<and> tzinfo b = z
      | _ \<Rightarrow> False)"

text \<open>
  The weekday of a civil date, stated apart from the program: Zeller's congruence for the
  Gregorian calendar, which counts January and February as the months 13 and 14 of the
  year before and numbers the days from Saturday.
\<close>

definition zeller :: "int \<Rightarrow> int \<Rightarrow> int \<Rightarrow> int" where
  "zeller y m d =
     (let Y = (if m < 3 then y - 1 else y); M = (if m < 3 then m + 12 else m)
      in (d + 13 * (M + 1) div 5 + Y + Y div 4 - Y div 100 + Y div 400) mod 7)"

definition civil_weekday_name :: "datetime \<Rightarrow> pystr" where
  "civil_weekday_name dt =
     [str ''Saturday'', str ''Sunday'', str ''Monday'', str ''Tuesday'', str ''Wednesday'',
      str ''Thursday'', str ''Friday''] ! nat (zeller (year dt) (month dt) (day dt))"

text \<open>Midnight of a day in Brisbane, the shape of every date the program parses.\<close>

definition brisbane_date :: "int \<Rightarrow> int \<Rightarrow> int \<Rightarrow> datetime" where
  "brisbane_date y m d =
     \<lparr>year = y, month = m, day = d, hour = 0, minute = 0, second = 0, microsecond = 0,
      tzinfo = Some Australia_Brisbane\<rparr>"

text \<open>
  \<open>parsed_date a\<close>: a valid date at midnight in the Brisbane zone, which is what
  \<^verbatim>\<open>get_date\<close> returns when it returns.
\<close>

definition parsed_date :: "datetime \<Rightarrow> bool" where
  "parsed_date a \<longleftrightarrow> valid_datetime a \<and> tzinfo a = Some Australia_Brisbane"

definition parsed_semester :: "Semester \<Rightarrow> bool" where
  "parsed_semester s \<longleftrightarrow>
     (case start_date s of None \<Rightarrow> True | Some a \<Rightarrow> parsed_date a) \<and>
     (case end_date s of None \<Rightarrow> True | Some b \<Rightarrow> parsed_date b)"

subsection \<open>Example data\<close>

definition semester_1_2024 :: Semester where
  "semester_1_2024 =
     \<lparr>name = str ''Semester 1'', start_date = Some (brisbane_date 2024 2 26),
      end_date = Some (brisbane_date 2024 6 2)\<rparr>"

definition semester_2_2024 :: Semester where
  "semester_2_2024 =
     \<lparr>name = str ''Semester 2'', start_date = Some (brisbane_date 2024 7 22),
      end_date = Some (brisbane_date 2024 11 23)\<rparr>"

text \<open>A second record over the same weeks as \<open>semester_1_2024\<close>, starting a week later.\<close>

definition overlapping_2024 :: Semester where
  "overlapping_2024 =
     \<lparr>name = str ''Semester 2'', start_date = Some (brisbane_date 2024 3 4),
      end_date = Some (brisbane_date 2024 6 2)\<rparr>"

text \<open>
  An accordion block as the calendar page has it: the title in an \<^verbatim>\<open>h4\<close>, the events
  as the \<^verbatim>\<open>li\<close> items of a list inside the content \<^verbatim>\<open>div\<close>. \<open>tag_h3\<close> is a year
  heading.
\<close>

definition accordion_item :: "pystr \<Rightarrow> pystr list \<Rightarrow> node" where
  "accordion_item title lines =
     Tag (str ''div'') (Some [str ''uq-accordion__item''])
       [Tag (str ''h4'') None [NavigableString title],
        Tag (str ''div'') (Some [str ''uq-accordion__content''])
          [Tag (str ''ul'') None (map (\<lambda>l. Tag (str ''li'') None [NavigableString l]) lines)]]"

definition tag_h3 :: "pystr \<Rightarrow> node" where
  "tag_h3 text = Tag (str ''h3'') None [NavigableString text]"

text \<open>
  \<^verbatim>\<open><h3>2024</h3>\<close> followed by a \<^verbatim>\<open>Semester 1\<close> block that has an end line and no
  \<^verbatim>\<open>Classes start\<close> line.
\<close>

definition missing_start_doc :: "node list" where
  "missing_start_doc =
     [tag_h3 (str ''2024''),
      accordion_item (str ''Semester 1'') [str ''2 Jun '' @ dash @ str '' Semester 1 ends'']]"

text \<open>The same block, with a start line whose date is after the date of the end line.\<close>

definition inverted_doc :: "node list" where
  "inverted_doc =
     [tag_h3 (str ''2024''),
      accordion_item (str ''Semester 1'')
        [str ''22 Jul '' @ dash @ str '' Classes start'',
         str ''2 Jun '' @ dash @ str '' Semester 1 ends'']]"

definition inverted_2024 :: Semester where
  "inverted_2024 =
     \<lparr>name = str ''Semester 1'', start_date = Some (brisbane_date 2024 7 22),
      end_date = Some (brisbane_date 2024 6 2)\<rparr>"

text \<open>A year whose first block is a summer semester, followed by a \<^verbatim>\<open>Semester 1\<close> block.\<close>

definition summer_item :: node where
  "summer_item = accordion_item (str ''Summer Semester'') [str ''27 Nov '' @ dash @ str '' Classes start'']"

definition semester_1_item :: node where
  "semester_1_item =
     accordion_item (str ''Semester 1'')
       [str ''26 Feb '' @ dash @ str '' Classes start'',
        str ''2 Jun '' @ dash @ str '' Semester 1 ends'']"

text \<open>Event lines; the first has a no-break space between the day and the month.\<close>

definition nbsp_start_line :: pystr where
  "nbsp_start_line = str ''26'' @ [160] @ str ''Feb '' @ dash @ str '' Classes start''"

definition start_line_feb :: pystr where
  "start_line_feb = str ''26 Feb '' @ dash @ str '' Classes start''"

definition both_markers_line :: pystr where
  "both_markers_line = str ''4 Mar '' @ dash @ str '' Classes start, Semester 1 ends''"

definition end_line_jun2 :: pystr where
  "end_line_jun2 = str ''2 Jun '' @ dash @ str '' Semester 1 ends''"

definition end_line_jun9 :: pystr where
  "end_line_jun9 = str ''9 Jun '' @ dash @ str '' Semester 1 classes end''"

text \<open>The start line and the end line written with an en dash, U+2013.\<close>

definition en_dash_start_line :: pystr where
  "en_dash_start_line = str ''26 Feb '' @ [8211] @ str '' Classes start''"

definition en_dash_end_line :: pystr where
  "en_dash_end_line = str ''2 Jun '' @ [8211] @ str '' Semester 1 ends''"

definition en_dash_doc :: "node list" where
  "en_dash_doc =
     [tag_h3 (str ''2024''),
      accordion_item (str ''Semester 1'') [en_dash_start_line, en_dash_end_line]]"

definition blank_semester_1 :: Semester where
  "blank_semester_1 = \<lparr>name = str ''Semester 1'', start_date = None, end_date = None\<rparr>"

section \<open>Calendar arithmetic\<close>

text \<open>
  The ordinal of a date grows with the date, and so the whole days between two valid
  datetimes in tuple order are not negative.
\<close>

lemma div_pred:
  fixes y k :: int
  assumes "0 < k"
  shows "y div k = (y - 1) div k + (if y mod k = 0 then 1 else 0)"
proof (cases "y mod k = 0")
  case True
  have "y - 1 = k * (y div k - 1) + (k - 1)"
    using True by (simp add: algebra_simps) (metis mult_div_mod_eq add.right_neutral)
  then have "(y - 1) div k = y div k - 1"
    using assms by (intro int_div_pos_eq[where r = "k - 1"]) auto
  with True show ?thesis by simp
next
  case False
  have "0 \<le> y mod k" "y mod k < k" using assms by auto
  with False have r: "0 \<le> y mod k - 1" "y mod k - 1 < k" by auto
  have "y - 1 = k * (y div k) + (y mod k - 1)"
    by (simp add: algebra_simps)
  then have "(y - 1) div k = y div k"
    using r by (intro int_div_pos_eq[where r = "y mod k - 1"]) auto
  with False show ?thesis by simp
qed

lemma mod_400_100: "(y::int) mod 400 = 0 \<Longrightarrow> y mod 100 = 0"
proof -
  assume "y mod 400 = 0"
  then have "400 dvd y" by (rule mod_0_imp_dvd)
  moreover have "(100::int) dvd 400" by simp
  ultimately have "100 dvd y" by (rule dvd_trans[rotated])
  then show ?thesis by simp
qed

lemma mod_100_4: "(y::int) mod 100 = 0 \<Longrightarrow> y mod 4 = 0"
proof -
  assume "y mod 100 = 0"
  then have "100 dvd y" by (rule mod_0_imp_dvd)
  moreover have "(4::int) dvd 100" by simp
  ultimately have "4 dvd y" by (rule dvd_trans[rotated])
  then show ?thesis by simp
qed

lemma leap_arith:
  fixes a b c y :: int
  assumes "p400 \<Longrightarrow> p100" "p100 \<Longrightarrow> p4"
  shows "y * 365 + (a + (if p4 then 1 else 0)) - (b + (if p100 then 1 else 0)) + (c + (if p400 then 1 else 0))
       = (y - 1) * 365 + a - b + c + (if p4 \<and> (\<not> p100 \<or> p400) then 366 else 365)"
  using assms by (cases p4; cases p100; cases p400; simp add: algebra_simps)

lemma dby_leap: "days_before_year (y + 1) = days_before_year y + (if is_leap y then 366 else 365)"
proof -
  have e4: "y div 4 = (y - 1) div 4 + (if y mod 4 = 0 then 1 else 0)"
    by (rule div_pred) simp
  have e100: "y div 100 = (y - 1) div 100 + (if y mod 100 = 0 then 1 else 0)"
    by (rule div_pred) simp
  have e400: "y div 400 = (y - 1) div 400 + (if y mod 400 = 0 then 1 else 0)"
    by (rule div_pred) simp
  have "days_before_year (y + 1) = y * 365 + y div 4 - y div 100 + y div 400"
    by (simp add: days_before_year_def)
  also have "\<dots> = y * 365 + ((y - 1) div 4 + (if y mod 4 = 0 then 1 else 0))
      - ((y - 1) div 100 + (if y mod 100 = 0 then 1 else 0))
      + ((y - 1) div 400 + (if y mod 400 = 0 then 1 else 0))"
    by (simp only: e4 e100 e400)
  also have "\<dots> = (y - 1) * 365 + (y - 1) div 4 - (y - 1) div 100 + (y - 1) div 400
      + (if y mod 4 = 0 \<and> (\<not> y mod 100 = 0 \<or> y mod 400 = 0) then 366 else 365)"
    by (rule leap_arith) (rule mod_400_100, assumption, rule mod_100_4, assumption)
  finally show ?thesis by (simp only: days_before_year_def is_leap_def)
qed


lemma dby_mono: "a \<le> b \<Longrightarrow> days_before_year a \<le> days_before_year b"
proof (induction b rule: int_ge_induct)
  case base
  show ?case by simp
next
  case (step i)
  then show ?case by (simp add: dby_leap)
qed

lemma dbm_next:
  assumes "1 \<le> m" "m \<le> 11"
  shows "days_before_month y (m + 1) = days_before_month y m + days_in_month y m"
proof -
  have "\<forall>k\<in>set [1..11]. days_before_month y (k + 1) = days_before_month y k + days_in_month y k"
    by (simp add: upto.simps days_before_month_def days_in_month_def)
  with assms show ?thesis by simp
qed

lemma dim_pos: "28 \<le> days_in_month y m"
  by (simp add: days_in_month_def)

lemma dbm_mono:
  assumes "1 \<le> m1" "m1 < m2" "m2 \<le> 12"
  shows "days_before_month y m1 + days_in_month y m1 \<le> days_before_month y m2"
proof -
  have "m1 + 1 \<le> m2" using assms by simp
  then show ?thesis using assms(1,3)
  proof (induction m2 rule: int_ge_induct)
    case base
    then show ?case by (simp add: dbm_next)
  next
    case (step i)
    then have "days_before_month y (i + 1) = days_before_month y i + days_in_month y i"
      by (intro dbm_next) auto
    with step dim_pos[of y i] show ?case by simp
  qed
qed

lemma year_end:
  assumes "valid_date y m d"
  shows "days_before_month y m + d \<le> (if is_leap y then 366 else 365)"
proof -
  have e: "days_before_month y 12 + days_in_month y 12 = (if is_leap y then 366 else 365)"
    by (simp add: days_before_month_def days_in_month_def)
  from assms have b: "1 \<le> m" "m \<le> 12" "d \<le> days_in_month y m"
    by (simp_all add: valid_date_def)
  show ?thesis
  proof (cases "m = 12")
    case True
    with b e show ?thesis by simp
  next
    case False
    with b have "days_before_month y m + days_in_month y m \<le> days_before_month y 12"
      by (intro dbm_mono) auto
    with b e dim_pos[of y 12] show ?thesis by simp
  qed
qed

lemma dbm_nonneg:
  assumes "1 \<le> m" "m \<le> 12"
  shows "0 \<le> days_before_month y m"
proof -
  have "\<forall>k\<in>set [1..12]. 0 \<le> days_before_month y k"
    by (simp add: upto.simps days_before_month_def)
  with assms show ?thesis by simp
qed

lemma lex_le_int: "((a::int), r) \<le> (b, s) \<longleftrightarrow> a < b \<or> a = b \<and> r \<le> s"
  by (auto simp: less_eq_prod_def)

lemma lex_less_int: "((a::int), r) < (b, s) \<longleftrightarrow> a < b \<or> a = b \<and> r < s"
  by (auto simp: less_prod_def)

lemma ymd2ord_strict_mono:
  assumes "valid_date y1 m1 d1" "valid_date y2 m2 d2" "(y1, m1, d1) < (y2, m2, d2)"
  shows "ymd2ord y1 m1 d1 < ymd2ord y2 m2 d2"
proof -
  from assms(1) have v1: "1 \<le> m1" "m1 \<le> 12" "1 \<le> d1" "d1 \<le> days_in_month y1 m1"
    by (simp_all add: valid_date_def)
  from assms(2) have v2: "1 \<le> m2" "m2 \<le> 12" "1 \<le> d2" "d2 \<le> days_in_month y2 m2"
    by (simp_all add: valid_date_def)
  from assms(3) consider "y1 < y2" | "y1 = y2" "m1 < m2" | "y1 = y2" "m1 = m2" "d1 < d2"
    unfolding lex_less_int by auto
  then show ?thesis
  proof cases
    case 1
    then have "days_before_year (y1 + 1) \<le> days_before_year y2"
      by (intro dby_mono) simp
    with year_end[OF assms(1)] dbm_nonneg[OF v2(1,2), of y2] v2(3) show ?thesis
      by (simp add: ymd2ord_def dby_leap split: if_splits)
  next
    case 2
    with dbm_mono[of m1 m2 y1] v1 v2 show ?thesis
      by (simp add: ymd2ord_def)
  next
    case 3
    then show ?thesis by (simp add: ymd2ord_def)
  qed
qed

lemma time_of_day_mono:
  assumes "valid_datetime a" "valid_datetime b"
    and "(hour a, minute a, second a, microsecond a) \<le> (hour b, minute b, second b, microsecond b)"
  shows "0 \<le> (day_seconds b - day_seconds a) * 1000000 + (microsecond b - microsecond a)"
  using assms unfolding lex_le_int by (auto simp: valid_datetime_def day_seconds_def)

lemma time_of_day_bound:
  assumes "valid_datetime a" "valid_datetime b"
  shows "- 86400000000 < (day_seconds b - day_seconds a) * 1000000 + (microsecond b - microsecond a)"
  using assms by (auto simp: valid_datetime_def day_seconds_def)

lemma sub_days_nonneg:
  assumes "valid_datetime a" "valid_datetime b" "dt_tuple a \<le> dt_tuple b"
  shows "0 \<le> sub_days b a"
proof -
  let ?t = "(day_seconds b - day_seconds a) * 1000000 + (microsecond b - microsecond a)"
  from assms(1,2) have va: "valid_date (year a) (month a) (day a)" and vb: "valid_date (year b) (month b) (day b)"
    by (simp_all add: valid_datetime_def)
  from assms(3) consider "(year a, month a, day a) < (year b, month b, day b)"
    | "year a = year b" "month a = month b" "day a = day b"
      "(hour a, minute a, second a, microsecond a) \<le> (hour b, minute b, second b, microsecond b)"
    unfolding dt_tuple_def lex_le_int lex_less_int by auto
  then have "0 \<le> (toordinal b - toordinal a) * 86400000000 + ?t"
  proof cases
    case 1
    from ymd2ord_strict_mono[OF va vb 1] have "1 \<le> toordinal b - toordinal a"
      by (simp add: toordinal_def)
    then have "86400000000 \<le> (toordinal b - toordinal a) * 86400000000" by simp
    with time_of_day_bound[OF assms(1,2)] show ?thesis by linarith
  next
    case 2
    with time_of_day_mono[OF assms(1,2)] show ?thesis by (simp add: toordinal_def)
  qed
  then show ?thesis
    by (simp add: sub_days_def pos_imp_zdiv_nonneg_iff algebra_simps)
qed


text \<open>
  The weekday \<^verbatim>\<open>strftime\<close> names is the weekday of the civil calendar: the count from the
  ordinal and Zeller's congruence agree on every date.
\<close>

lemma mod7_step:
  fixes a s d t z :: int
  assumes "(t + 1 - z) mod 7 = 0"
  shows "(365 * a + s + t + d + 6) mod 7 = ((d + z + a + s) mod 7 + 5) mod 7"
proof -
  from assms have "7 dvd (t + 1 - z)" by (simp add: dvd_eq_mod_eq_0)
  then have "7 dvd 7 * (52 * a) + (t + 1 - z)" by (simp only: dvd_add_right_iff dvd_triv_left)
  moreover have "(365 * a + s + t + d + 6) - (d + z + a + s + 5) = 7 * (52 * a) + (t + 1 - z)"
    by (simp add: algebra_simps)
  ultimately have "(365 * a + s + t + d + 6) mod 7 = (d + z + a + s + 5) mod 7"
    by (simp only: mod_eq_dvd_iff)
  then show ?thesis by (simp only: mod_add_left_eq)
qed

lemma reassoc: "x + p - q + r = x + (p - q + r)" for x p q r :: int
  by simp

lemma ymd2ord_zeller:
  assumes "1 \<le> m" "m \<le> 12"
  shows "(ymd2ord y m d + 6) mod 7 = (zeller y m d + 5) mod 7"
proof -
  define S where "S Y = Y div 4 - Y div 100 + Y div 400" for Y :: int
  let ?T = "\<lambda>k::int. [- 1, 0, 31, 59, 90, 120, 151, 181, 212, 243, 273, 304, 334] ! nat k"
  have dby: "days_before_year (Y + 1) = 365 * Y + S Y" for Y
    by (simp add: days_before_year_def S_def)
  show ?thesis
  proof (cases "m < 3")
    case True
    have "\<forall>k\<in>set [1..2]. (?T k + 1 - 13 * (k + 12 + 1) div 5) mod (7::int) = 0"
      by (simp add: upto.simps)
    moreover have "m \<in> set [1..2]" unfolding set_upto using True assms by simp
    ultimately have t: "(?T m + 1 - 13 * (m + 12 + 1) div 5) mod 7 = 0" by (rule bspec)
    have o: "ymd2ord y m d = 365 * (y - 1) + S (y - 1) + ?T m + d"
      using True dby[of "y - 1"] by (simp add: ymd2ord_def days_before_month_def)
    have "zeller y m d = (d + 13 * (m + 12 + 1) div 5 + (y - 1) + (y - 1) div 4
        - (y - 1) div 100 + (y - 1) div 400) mod 7"
      using True by (simp add: zeller_def Let_def)
    then have z: "zeller y m d = (d + 13 * (m + 12 + 1) div 5 + (y - 1) + S (y - 1)) mod 7"
      by (simp only: S_def reassoc)
    show ?thesis unfolding o z by (rule mod7_step[OF t])
  next
    case False
    have "\<forall>k\<in>set [3..12]. (?T k - 365 + 1 - 13 * (k + 1) div 5) mod (7::int) = 0"
      by (simp add: upto.simps)
    moreover have "m \<in> set [3..12]" unfolding set_upto using False assms by simp
    ultimately have t: "(?T m - 365 + 1 - 13 * (m + 1) div 5) mod 7 = 0" by (rule bspec)
    have "days_before_year y + (if is_leap y then 1 else 0) = 365 * y + S y - 365"
      using dby[of y] dby_leap[of y] by (simp split: if_splits)
    then have o: "ymd2ord y m d = 365 * y + S y + (?T m - 365) + d"
      using False by (simp add: ymd2ord_def days_before_month_def split: if_splits)
    have "zeller y m d = (d + 13 * (m + 1) div 5 + y + y div 4 - y div 100 + y div 400) mod 7"
      using False by (simp add: zeller_def Let_def)
    then have z: "zeller y m d = (d + 13 * (m + 1) div 5 + y + S y) mod 7"
      by (simp only: S_def reassoc)
    show ?thesis unfolding o z by (rule mod7_step[OF t])
  qed
qed

lemma strftime_A_civil:
  assumes "valid_datetime dt"
  shows "strftime_A dt = civil_weekday_name dt"
proof -
  from assms have m: "1 \<le> month dt" "month dt \<le> 12"
    by (simp_all add: valid_datetime_def valid_date_def)
  let ?h = "zeller (year dt) (month dt) (day dt)"
  have w: "dt_weekday dt = (?h + 5) mod 7"
    unfolding dt_weekday_def toordinal_def by (rule ymd2ord_zeller[OF m])
  have h: "?h \<in> set [0..6]" unfolding set_upto by (simp add: zeller_def Let_def)
  have "\<forall>k\<in>set [0..6].
      [str ''Monday'', str ''Tuesday'', str ''Wednesday'', str ''Thursday'', str ''Friday'',
       str ''Saturday'', str ''Sunday''] ! nat ((k + 5) mod 7)
    = [str ''Saturday'', str ''Sunday'', str ''Monday'', str ''Tuesday'', str ''Wednesday'',
       str ''Thursday'', str ''Friday''] ! nat k"
    by (simp add: upto.simps)
  from this h show ?thesis
    unfolding strftime_A_def civil_weekday_name_def w by (rule bspec)
qed

section \<open>Properties of the week resolver\<close>

lemmas example_defs = semester_1_2024_def semester_2_2024_def overlapping_2024_def brisbane_date_def

lemma gsw_step:
  assumes "typed_semester (tzinfo d) s"
  shows "get_semester_week (s # rest) d =
     (if in_range s d
      then Inr (Some (name s, sub_days d (the (start_date s)) div 7 + 1, strftime_A d))
      else get_semester_week rest d)"
proof -
  from assms obtain a b where ab: "start_date s = Some a" "end_date s = Some b"
    and tz: "tzinfo a = tzinfo d" "tzinfo b = tzinfo d"
    by (auto simp: typed_semester_def split: option.splits)
  have r: "in_range s d \<longleftrightarrow> dt_tuple a \<le> dt_tuple d \<and> dt_tuple d \<le> dt_tuple b"
    by (simp add: in_range_def ab)
  show ?thesis
  proof (cases "dt_tuple a \<le> dt_tuple d")
    case False
    then show ?thesis by (simp add: r ab tz)
  next
    case True
    then show ?thesis by (cases "dt_tuple d \<le> dt_tuple b") (simp_all add: r ab tz)
  qed
qed

lemma gsw_skip:
  assumes "\<forall>s\<in>set pre. typed_semester (tzinfo d) s \<and> \<not> in_range s d"
  shows "get_semester_week (pre @ rest) d = get_semester_week rest d"
  using assms
proof (induction pre)
  case Nil
  show ?case by simp
next
  case (Cons s pre)
  then show ?case by (simp add: gsw_step del: get_semester_week.simps)
qed

lemma gsw_first:
  assumes "\<forall>s\<in>set pre. typed_semester (tzinfo d) s \<and> \<not> in_range s d"
    and "typed_semester (tzinfo d) s" and "in_range s d"
  shows "get_semester_week (pre @ s # post) d =
     Inr (Some (name s, sub_days d (the (start_date s)) div 7 + 1, strftime_A d))"
  using assms by (simp add: gsw_skip gsw_step del: get_semester_week.simps)

lemma sub_days_same:
  assumes "dt_tuple d = dt_tuple a"
  shows "sub_days d a = 0"
  using assms by (simp add: sub_days_def dt_tuple_def toordinal_def day_seconds_def)

lemma sub_days_week:
  assumes "toordinal d = toordinal a + 7" "day_seconds d = day_seconds a" "microsecond d = microsecond a"
  shows "sub_days d a = 7"
  using assms by (simp add: sub_days_def)

lemmas date_defs = toordinal_def ymd2ord_def days_before_year_def days_before_month_def is_leap_def
  day_seconds_def sub_days_def dt_weekday_def strftime_A_def dt_tuple_def zeller_def
  civil_weekday_name_def Let_def

lemma gsw_none:
  assumes "\<forall>s\<in>set semesters. typed_semester (tzinfo d) s \<and> \<not> in_range s d"
  shows "get_semester_week semesters d = Inr None"
  using gsw_skip[OF assms, of "[]"] by simp

lemma py_min_Min: "ys \<noteq> [] \<Longrightarrow> py_min ys = Inr (Min (set ys))"
  by (cases ys) (simp_all add: Min.set_eq_fold del: set_simps)

lemma py_max_Max: "ys \<noteq> [] \<Longrightarrow> py_max ys = Inr (Max (set ys))"
  by (cases ys) (simp_all add: Max.set_eq_fold del: set_simps)

lemma dt_le_True:
  assumes "dt_le x y = Inr True"
  shows "\<exists>a b. x = Some a \<and> y = Some b \<and> tzinfo a = tzinfo b \<and> dt_tuple a \<le> dt_tuple b"
  using assms by (cases x; cases y) (auto split: if_splits)

lemma gsw_Some:
  assumes "get_semester_week semesters d = Inr (Some (nm, w, wd))"
  shows "\<exists>s\<in>set semesters. \<exists>a. start_date s = Some a \<and> dt_tuple a \<le> dt_tuple d \<and>
            w = sub_days d a div 7 + 1"
  using assms
proof (induction semesters)
  case Nil
  then show ?case by simp
next
  case (Cons s rest)
  show ?case
  proof (cases "dt_le (start_date s) (Some d) = Inr True \<and> dt_le (Some d) (end_date s) = Inr True")
    case True
    then obtain a where "start_date s = Some a" "dt_tuple a \<le> dt_tuple d"
      using dt_le_True[of "start_date s" "Some d"] by auto
    with True Cons.prems show ?thesis by (simp add: Let_def)
  next
    case False
    with Cons.prems have "get_semester_week rest d = Inr (Some (nm, w, wd))"
      by (auto split: sum.splits bool.splits)
    from Cons.IH[OF this] show ?thesis by auto
  qed
qed

text \<open>
  Claim C3. Let every semester of the list have both of its dates, in the zone of the
  queried date \<open>d\<close>, a valid datetime. If some semester \<open>s\<close> of the list has \<open>d\<close>
  in its range, then \<^verbatim>\<open>get_semester_week\<close> returns a result, built from the
  earliest-listed semester \<open>s0\<close> whose range contains \<open>d\<close> (which is \<open>s\<close> itself when no
  other semester contains \<open>d\<close>): its name, the week index
  \<open>(whole days from the start of s0 to d) div 7 + 1\<close>, and the name of the weekday of
  \<open>d\<close> in the civil calendar. The week index is 1 when \<open>d\<close> is the start date and 2 when
  \<open>d\<close> is seven days after it.
\<close>

theorem resolve_found:
  assumes typed: "\<forall>s\<in>set semesters. typed_semester (tzinfo d) s"
    and mem: "s \<in> set semesters" and rng: "in_range s d"
    and valid: "valid_datetime d"
  shows "\<exists>s0 a0. find (\<lambda>s. in_range s d) semesters = Some s0 \<and> start_date s0 = Some a0 \<and>
      get_semester_week semesters d
        = Inr (Some (name s0, sub_days d a0 div 7 + 1, civil_weekday_name d)) \<and>
      (dt_tuple d = dt_tuple a0 \<longrightarrow> sub_days d a0 div 7 + 1 = 1) \<and>
      (toordinal d = toordinal a0 + 7 \<and> day_seconds d = day_seconds a0 \<and> microsecond d = microsecond a0
         \<longrightarrow> sub_days d a0 div 7 + 1 = 2) \<and>
      ((\<forall>s'\<in>set semesters. in_range s' d \<longrightarrow> s' = s) \<longrightarrow> s0 = s)"
proof -
  from mem rng have "\<exists>x\<in>set semesters. in_range x d" by blast
  from split_list_first_prop[OF this]
  obtain pre s0 post where split: "semesters = pre @ s0 # post" and s0: "in_range s0 d"
    and pre: "\<forall>x\<in>set pre. \<not> in_range x d"
    by blast
  from split typed have tpre: "\<forall>x\<in>set pre. typed_semester (tzinfo d) x \<and> \<not> in_range x d"
    and ts0: "typed_semester (tzinfo d) s0"
    using pre by auto
  from ts0 obtain a0 where a0: "start_date s0 = Some a0"
    by (auto simp: typed_semester_def split: option.splits)
  have f: "find (\<lambda>s. in_range s d) semesters = Some s0"
    unfolding split using pre s0 by (induction pre) auto
  have r: "get_semester_week semesters d
             = Inr (Some (name s0, sub_days d a0 div 7 + 1, civil_weekday_name d))"
    unfolding split using gsw_first[OF tpre ts0 s0] a0 strftime_A_civil[OF valid] by simp
  have u: "(\<forall>s'\<in>set semesters. in_range s' d \<longrightarrow> s' = s) \<longrightarrow> s0 = s"
    using split s0 by auto
  show ?thesis
    using f a0 r u by (auto simp: sub_days_same sub_days_week)
qed

text \<open>
  The examples of the specification, and a Wednesday: in the semester from 26 February to
  2 June 2024, the 26th of February is the Monday of week 1, the 4th of March the Monday
  of week 2 and the 6th of March the Wednesday of week 2.
\<close>

theorem resolve_found_witness:
  "get_semester_week [semester_1_2024, semester_2_2024] (brisbane_date 2024 2 26)
     = Inr (Some (str ''Semester 1'', 1, str ''Monday''))
   \<and> get_semester_week [semester_1_2024, semester_2_2024] (brisbane_date 2024 3 4)
     = Inr (Some (str ''Semester 1'', 2, str ''Monday''))
   \<and> get_semester_week [semester_1_2024, semester_2_2024] (brisbane_date 2024 3 6)
     = Inr (Some (str ''Semester 1'', 2, str ''Wednesday''))"
proof -
  let ?l = "[semester_1_2024, semester_2_2024]"
  have t: "\<forall>s\<in>set ?l. typed_semester (tzinfo (brisbane_date y m d)) s" for y m d
    by (simp add: typed_semester_def example_defs)
  have m: "semester_1_2024 \<in> set ?l" by simp
  have r: "in_range semester_1_2024 (brisbane_date 2024 2 26)"
    "in_range semester_1_2024 (brisbane_date 2024 3 4)"
    "in_range semester_1_2024 (brisbane_date 2024 3 6)"
    by (simp_all add: in_range_def example_defs dt_tuple_def)
  have v: "valid_datetime (brisbane_date 2024 2 26)" "valid_datetime (brisbane_date 2024 3 4)"
    "valid_datetime (brisbane_date 2024 3 6)"
    by (simp_all add: valid_datetime_def valid_date_def days_in_month_def brisbane_date_def)
  have res: "get_semester_week ?l d = Inr (Some (str ''Semester 1'', w, n))"
    if "in_range semester_1_2024 d" 
      and "\<exists>s0 a0. find (\<lambda>s. in_range s d) ?l = Some s0 \<and> start_date s0 = Some a0 \<and>
        get_semester_week ?l d = Inr (Some (name s0, sub_days d a0 div 7 + 1, civil_weekday_name d)) \<and>
        (dt_tuple d = dt_tuple a0 \<longrightarrow> sub_days d a0 div 7 + 1 = 1) \<and>
        (toordinal d = toordinal a0 + 7 \<and> day_seconds d = day_seconds a0 \<and> microsecond d = microsecond a0
           \<longrightarrow> sub_days d a0 div 7 + 1 = 2) \<and>
        ((\<forall>s'\<in>set ?l. in_range s' d \<longrightarrow> s' = semester_1_2024) \<longrightarrow> s0 = semester_1_2024)"
      and "sub_days d (brisbane_date 2024 2 26) div 7 + 1 = w" and "civil_weekday_name d = n"
    for d w n
  proof -
    from that(2) obtain s0 a0 where f: "find (\<lambda>s. in_range s d) ?l = Some s0"
      and a: "start_date s0 = Some a0"
      and g: "get_semester_week ?l d
                = Inr (Some (name s0, sub_days d a0 div 7 + 1, civil_weekday_name d))"
      by blast
    from f that(1) have s: "s0 = semester_1_2024" by simp
    with a have "a0 = brisbane_date 2024 2 26" by (simp add: semester_1_2024_def)
    with g s that(3,4) show ?thesis by (simp add: semester_1_2024_def)
  qed
  have "get_semester_week ?l (brisbane_date 2024 2 26) = Inr (Some (str ''Semester 1'', 1, str ''Monday''))"
    by (rule res[OF r(1) resolve_found[OF t m r(1) v(1)]]) (simp_all add: example_defs date_defs)
  moreover
  have "get_semester_week ?l (brisbane_date 2024 3 4) = Inr (Some (str ''Semester 1'', 2, str ''Monday''))"
    by (rule res[OF r(2) resolve_found[OF t m r(2) v(2)]]) (simp_all add: example_defs date_defs)
  moreover
  have "get_semester_week ?l (brisbane_date 2024 3 6) = Inr (Some (str ''Semester 1'', 2, str ''Wednesday''))"
    by (rule res[OF r(3) resolve_found[OF t m r(3) v(3)]]) (simp_all add: example_defs date_defs)
  ultimately show ?thesis by simp
qed

text \<open>
  Claim C7. When two semesters of the list, at positions \<open>i < j\<close>, both contain the queried
  date and none before position \<open>i\<close> does, the result is the one built from the semester
  at position \<open>i\<close>, and it is the result for the list cut off after position \<open>i\<close>:
  whatever follows, matching or not, is never looked at.
\<close>

theorem first_match_wins:
  assumes "i < j" "j < length semesters"
    and "in_range (semesters ! i) d" "in_range (semesters ! j) d"
    and "\<forall>k<i. \<not> in_range (semesters ! k) d"
    and "\<forall>k\<le>i. typed_semester (tzinfo d) (semesters ! k)"
  shows "get_semester_week semesters d =
           Inr (Some (name (semesters ! i), sub_days d (the (start_date (semesters ! i))) div 7 + 1,
                      strftime_A d))
         \<and> get_semester_week semesters d = get_semester_week (take (Suc i) semesters) d"
proof -
  let ?pre = "take i semesters" and ?s = "semesters ! i"
  from assms(1,2) have i: "i < length semesters" by simp
  then have split: "semesters = ?pre @ ?s # drop (Suc i) semesters"
    by (simp add: id_take_nth_drop)
  have split': "take (Suc i) semesters = ?pre @ ?s # []"
    using i by (simp add: take_Suc_conv_app_nth)
  have pre: "\<forall>s\<in>set ?pre. typed_semester (tzinfo d) s \<and> \<not> in_range s d"
  proof
    fix s assume "s \<in> set ?pre"
    then obtain k where "k < i" "s = semesters ! k"
      using i by (auto simp: in_set_conv_nth)
    with assms(5,6) show "typed_semester (tzinfo d) s \<and> \<not> in_range s d" by simp
  qed
  from assms(6) have ts: "typed_semester (tzinfo d) ?s" by simp
  have "get_semester_week (?pre @ ?s # drop (Suc i) semesters) d =
      Inr (Some (name ?s, sub_days d (the (start_date ?s)) div 7 + 1, strftime_A d))"
    by (rule gsw_first[OF pre ts assms(3)])
  moreover have "get_semester_week (?pre @ ?s # []) d =
      Inr (Some (name ?s, sub_days d (the (start_date ?s)) div 7 + 1, strftime_A d))"
    by (rule gsw_first[OF pre ts assms(3)])
  ultimately show ?thesis using split split' by simp
qed

theorem first_match_wins_witness:
  "get_semester_week [semester_1_2024, overlapping_2024, semester_2_2024] (brisbane_date 2024 3 4)
     = Inr (Some (str ''Semester 1'', 2, str ''Monday''))
   \<and> in_range overlapping_2024 (brisbane_date 2024 3 4)"
proof -
  let ?d = "brisbane_date 2024 3 4" and ?l = "[semester_1_2024, overlapping_2024, semester_2_2024]"
  have r0: "in_range (?l ! 0) ?d" and r1: "in_range (?l ! 1) ?d"
    by (simp_all add: in_range_def example_defs dt_tuple_def)
  have t: "\<forall>k\<le>0. typed_semester (tzinfo ?d) (?l ! k)"
    by (simp add: typed_semester_def example_defs)
  have "get_semester_week ?l ?d =
      Inr (Some (name (?l ! 0), sub_days ?d (the (start_date (?l ! 0))) div 7 + 1, strftime_A ?d))"
    using first_match_wins[of 0 1 ?l ?d, OF _ _ r0 r1 _ t] by simp
  with r1 show ?thesis by (simp add: example_defs date_defs)
qed

text \<open>
  Claim C9. Whenever \<^verbatim>\<open>get_semester_week\<close> returns a result for a valid queried date
  and semesters whose start dates are valid datetimes, the week index in it is at least 1.
\<close>

theorem week_index_positive:
  assumes "get_semester_week semesters d = Inr (Some (nm, w, wd))"
    and "valid_datetime d"
    and "\<forall>s\<in>set semesters. \<forall>a. start_date s = Some a \<longrightarrow> valid_datetime a"
  shows "1 \<le> w"
proof -
  from gsw_Some[OF assms(1)] obtain s a where s: "s \<in> set semesters" "start_date s = Some a"
    and le: "dt_tuple a \<le> dt_tuple d" and w: "w = sub_days d a div 7 + 1"
    by blast
  from s assms(3) have "valid_datetime a" by blast
  from sub_days_nonneg[OF this assms(2) le] have "0 \<le> sub_days d a div 7"
    by (simp add: pos_imp_zdiv_nonneg_iff)
  with w show ?thesis by simp
qed

theorem week_index_positive_witness:
  "get_semester_week [semester_1_2024] (brisbane_date 2024 3 4)
     = Inr (Some (str ''Semester 1'', 2, str ''Monday'')) \<and> (1::int) \<le> 2"
proof -
  have g: "get_semester_week [semester_1_2024] (brisbane_date 2024 3 4)
     = Inr (Some (str ''Semester 1'', 2, str ''Monday''))"
    by (simp add: example_defs date_defs)
  have v: "valid_datetime (brisbane_date 2024 3 4)"
    by (simp add: valid_datetime_def valid_date_def days_in_month_def brisbane_date_def)
  have vs: "\<forall>s\<in>set [semester_1_2024]. \<forall>a. start_date s = Some a \<longrightarrow> valid_datetime a"
    by (simp add: valid_datetime_def valid_date_def days_in_month_def example_defs)
  from week_index_positive[OF g v vs] g show ?thesis by simp
qed

text \<open>
  Claim C4, as stated, fails for the empty set of known years: on a page with no year
  heading there are no semesters and no years, and the command raises \<^verbatim>\<open>ValueError\<close>
  at \<^verbatim>\<open>min(year_numbers)\<close> where the claim has it answer that the date is out of range.
\<close>

theorem no_known_year_counterexample:
  "get_semester_times [] = Inr []
   \<and> whatweekisit [] [] (brisbane_date 2024 3 4) = Inl ValueError"
  by (simp add: get_semester_times_def whatweekisit_def)

text \<open>
  Claim C4, amended. Let every semester of the list have both of its dates, in the zone
  of the queried date \<open>d\<close>, let no semester's range contain \<open>d\<close>, and let there be at
  least one known year. When the year of \<open>d\<close> lies between the least and the greatest
  known year, the command answers that the university is not in session on that date;
  otherwise it answers that the date is out of bounds. The two answers are different texts.
\<close>

theorem not_found_reply:
  assumes "\<forall>s\<in>set semesters. typed_semester (tzinfo d) s"
    and "\<forall>s\<in>set semesters. \<not> in_range s d"
    and "year_numbers \<noteq> []"
  shows "whatweekisit semesters year_numbers d =
     Inr (Message
            (if Min (set year_numbers) \<le> year d \<and> year d \<le> Max (set year_numbers)
             then str ''University isn'' @ [39] @ str ''t in session on '' @ date_to_string d
                    @ str '', enjoy the break :)''
             else str ''Sorry, '' @ date_to_string d @ str '' is currently out of bounds.''))
     \<and> str ''University isn'' @ [39] @ str ''t in session on '' @ date_to_string d
           @ str '', enjoy the break :)''
         \<noteq> str ''Sorry, '' @ date_to_string d @ str '' is currently out of bounds.''"
proof -
  from assms(1,2) have "get_semester_week semesters d = Inr None"
    by (intro gsw_none) simp
  then show ?thesis
    by (simp add: whatweekisit_def Let_def py_min_Min[OF assms(3)] py_max_Max[OF assms(3)]
        not_in_session_def out_of_bounds_def str_def)
qed

text \<open>
  With the years 2020 to 2025 known: a date in 2027 and one in the year 999 are out of
  bounds, and the first of July 2024, between the two semesters, is out of session.
\<close>

theorem not_found_reply_witness:
  "whatweekisit [semester_1_2024, semester_2_2024] [2020, 2021, 2022, 2023, 2024, 2025] (brisbane_date 2027 1 1)
     = Inr (Message (str ''Sorry, 01/01/2027 is currently out of bounds.''))
   \<and> whatweekisit [semester_1_2024, semester_2_2024] [2020, 2021, 2022, 2023, 2024, 2025] (brisbane_date 999 1 1)
     = Inr (Message (str ''Sorry, 01/01/999 is currently out of bounds.''))
   \<and> whatweekisit [semester_1_2024, semester_2_2024] [2020, 2021, 2022, 2023, 2024, 2025] (brisbane_date 2024 7 1)
     = Inr (Message (str ''University isn'' @ [39] @ str ''t in session on 01/07/2024, enjoy the break :)''))"
proof -
  let ?l = "[semester_1_2024, semester_2_2024]" and ?ys = "[2020, 2021, 2022, 2023, 2024, 2025 :: int]"
  have t: "\<forall>s\<in>set ?l. typed_semester (tzinfo (brisbane_date y m d)) s" for y m d
    by (simp add: typed_semester_def example_defs)
  have n1: "\<forall>s\<in>set ?l. \<not> in_range s (brisbane_date 2027 1 1)"
    and n2: "\<forall>s\<in>set ?l. \<not> in_range s (brisbane_date 999 1 1)"
    and n3: "\<forall>s\<in>set ?l. \<not> in_range s (brisbane_date 2024 7 1)"
    by (simp_all add: in_range_def example_defs dt_tuple_def)
  have ne: "?ys \<noteq> []" by simp
  from not_found_reply[OF t n1 ne] not_found_reply[OF t n2 ne] not_found_reply[OF t n3 ne]
  show ?thesis
    by (simp add: brisbane_date_def date_to_string_def pad2_def digit_def decimal.simps str_def)
qed

section \<open>The command's date format, there and back\<close>

lemmas digit_defs = pad2_def digit_def is_digit_def is_digit19_def digit_val_def decimal_zeros_def

lemma re_d_pad2:
  assumes "1 \<le> n" "n \<le> 31"
  shows "\<exists>more. re_d (pad2 n @ r) = (n, r) # more"
proof -
  have "\<forall>k\<in>set [1..31]. \<exists>more. re_d (pad2 k @ r) = (k, r) # more"
    by (simp add: upto.simps re_d_def digit_defs)
  moreover have "n \<in> set [1..31]" unfolding set_upto using assms by simp
  ultimately show ?thesis by (rule bspec)
qed

lemma re_m_pad2:
  assumes "1 \<le> n" "n \<le> 12"
  shows "\<exists>more. re_m (pad2 n @ r) = (n, r) # more"
proof -
  have "\<forall>k\<in>set [1..12]. \<exists>more. re_m (pad2 k @ r) = (k, r) # more"
    by (simp add: upto.simps re_m_def digit_defs)
  moreover have "n \<in> set [1..12]" unfolding set_upto using assms by simp
  ultimately show ?thesis by (rule bspec)
qed

lemma decimal4:
  fixes y a b c p q r :: int
  assumes "y = 10 * a + p" "a = 10 * b + q" "b = 10 * c + r"
  shows "1000 * c + 100 * r + 10 * q + p = y"
  using assms by simp

lemma digits4:
  fixes y :: int
  shows "1000 * (y div 1000) + 100 * (y div 100 mod 10) + 10 * (y div 10 mod 10) + y mod 10 = y"
proof (rule decimal4)
  show "y = 10 * (y div 10) + y mod 10" by simp
  have "y div 10 div 10 = y div 100" by (simp add: zdiv_zmult2_eq)
  then show "y div 10 = 10 * (y div 100) + y div 10 mod 10"
    using mult_div_mod_eq[of 10 "y div 10"] by simp
  have "y div 100 div 10 = y div 1000" by (simp add: zdiv_zmult2_eq)
  then show "y div 100 = 10 * (y div 1000) + y div 100 mod 10"
    using mult_div_mod_eq[of 10 "y div 100"] by simp
qed

lemma digit_ok:
  assumes "k \<le> 9"
  shows "is_digit (48 + k)" "digit_val (48 + k) = int k"
  using assms by (simp_all add: is_digit_def digit_val_def decimal_zeros_def)

text \<open>A year of four digits is written with its four digits, and read back from them.\<close>

lemma decimal_four_digits:
  assumes "1000 \<le> n" "n \<le> 9999"
  shows "decimal n = [48 + n div 1000, 48 + n div 100 mod 10, 48 + n div 10 mod 10, 48 + n mod 10]"
proof -
  have d: "n div 10 div 10 = n div 100" "n div 100 div 10 = n div 1000"
    by (simp_all add: div_mult2_eq)
  have "100 \<le> n div 10" "10 \<le> n div 100" "n div 1000 < 10"
    using assms by simp_all
  then have b: "\<not> n < 10" "\<not> n div 10 < 10" "\<not> n div 100 < 10" "n div 1000 < 10"
    using assms by simp_all
  have "decimal n = decimal (n div 10) @ [48 + n mod 10]"
    using b(1) by (subst decimal.simps) simp
  also have "decimal (n div 10) = decimal (n div 100) @ [48 + n div 10 mod 10]"
    using b(2) d(1) by (subst decimal.simps) simp
  also have "decimal (n div 100) = decimal (n div 1000) @ [48 + n div 100 mod 10]"
    using b(3) d(2) by (subst decimal.simps) simp
  also have "decimal (n div 1000) = [48 + n div 1000]"
    using b(4) by (subst decimal.simps) simp
  finally show ?thesis by simp
qed

lemma re_Y_decimal:
  assumes "1000 \<le> n" "n \<le> 9999"
  shows "re_Y (decimal n @ r) = [(int n, r)]"
proof -
  have "n div 1000 \<le> 9" using assms by simp
  moreover have "n div 100 mod 10 \<le> 9" "n div 10 mod 10 \<le> 9" "n mod 10 \<le> 9" by simp_all
  moreover have "1000 * int (n div 1000) + 100 * int (n div 100 mod 10)
      + 10 * int (n div 10 mod 10) + int (n mod 10) = int n"
    using digits4[of "int n"] by (simp add: zdiv_int zmod_int)
  ultimately show ?thesis
    unfolding decimal_four_digits[OF assms] re_Y_def by (simp add: digit_ok)
qed

lemma dim_le_31: "days_in_month y m \<le> 31"
  by (simp add: days_in_month_def)

lemma date_roundtrip_four_digits:
  assumes "valid_datetime d" "1000 \<le> year d"
  shows "string_to_date (date_to_string d) = Inr (brisbane_date (year d) (month d) (day d))"
proof -
  from assms have v: "valid_date (year d) (month d) (day d)"
    by (simp add: valid_datetime_def)
  then have dd: "1 \<le> day d" "day d \<le> 31" and mm: "1 \<le> month d" "month d \<le> 12"
    using dim_le_31[of "year d" "month d"] by (simp_all add: valid_date_def)
  from v assms(2) have yy: "1000 \<le> nat (year d)" "nat (year d) \<le> 9999"
    by (auto simp: valid_date_def)
  let ?r3 = "decimal (nat (year d))"
  let ?r2 = "pad2 (month d) @ 47 # ?r3"
  let ?r1 = "47 # ?r2"
  from re_d_pad2[OF dd] obtain more1 where e1: "re_d (pad2 (day d) @ ?r1) = (day d, ?r1) # more1"
    by blast
  from re_m_pad2[OF mm] obtain more2 where e2: "re_m (pad2 (month d) @ 47 # ?r3) = (month d, 47 # ?r3) # more2"
    by blast
  from re_Y_decimal[OF yy, of "[]"] assms(2) have e3: "re_Y ?r3 = [(year d, [])]" by simp
  have "strptime_dmY (date_to_string d) = mk_datetime (year d) (month d) (day d)"
    by (simp add: strptime_dmY_def date_to_string_def str_def e1 e2 e3 re_lit_def finish_match_def)
  with v show ?thesis
    by (simp add: string_to_date_def mk_datetime_def brisbane_date_def)
qed

text \<open>
  Claim C8. The round trip does not hold for every date. The first of January of the
  year 999 is a valid date, the one \<^verbatim>\<open>string_to_date\<close> reads from \<^verbatim>\<open>01/01/0999\<close>;
  \<^verbatim>\<open>date_to_string\<close> writes it as \<^verbatim>\<open>01/01/999\<close>, and \<^verbatim>\<open>string_to_date\<close> rejects that
  text with a \<^verbatim>\<open>ValueError\<close>, since \<^verbatim>\<open>%Y\<close> reads four digits.
\<close>

theorem year_999_not_read_back:
  "valid_datetime (brisbane_date 999 1 1)
   \<and> string_to_date (str ''01/01/0999'') = Inr (brisbane_date 999 1 1)
   \<and> date_to_string (brisbane_date 999 1 1) = str ''01/01/999''
   \<and> string_to_date (date_to_string (brisbane_date 999 1 1)) = Inl ValueError"
  by (simp add: valid_datetime_def valid_date_def days_in_month_def is_leap_def brisbane_date_def
      date_to_string_def decimal.simps string_to_date_def strptime_dmY_def re_d_def re_m_def
      re_Y_def re_lit_def finish_match_def mk_datetime_def digit_defs str_def)

section \<open>Properties of the calendar parser\<close>

lemmas string_defs = str_def dash_def is_start_line_def is_end_line_def date_str_def strip_def
  replace_char_def isspace_def
lemmas strptime_defs = strptime_dbY_def re_d_def re_ws_def re_b_def re_Y_def finish_match_def
  mk_datetime_def valid_date_def days_in_month_def is_leap_def is_digit_def is_digit19_def
  digit_val_def decimal_zeros_def lower_def month_abbr_def upt_rec
lemmas soup_defs = get_semester_times_def accordion_item_def tag_h3_def descendants_def is_tag_def
  is_accordion_item_def is_accordion_content_def

lemmas line_defs = nbsp_start_line_def start_line_feb_def both_markers_line_def end_line_jun2_def
  end_line_jun9_def blank_semester_1_def en_dash_start_line_def en_dash_end_line_def

lemmas eval_defs = get_date_def string_defs strptime_defs brisbane_date_def line_defs

subsection \<open>Splitting, replacing and trimming\<close>

lemma split_head_prefix:
  "\<exists>tail. s = split_head sep s @ tail \<and> (tail = [] \<or> startswith tail sep)"
  by (induction s) auto

lemma split_head_first:
  "k < length (split_head sep s) \<Longrightarrow> \<not> startswith (drop k s) sep"
proof (induction s arbitrary: k)
  case Nil
  then show ?case by simp
next
  case (Cons c cs)
  show ?case
  proof (cases k)
    case 0
    with Cons.prems show ?thesis by (auto split: if_splits)
  next
    case (Suc j)
    with Cons.prems have "j < length (split_head sep cs)" by (auto split: if_splits)
    from Cons.IH[OF this] Suc show ?thesis by simp
  qed
qed

lemma replace_char_single: "replace_char old [new] s = map (\<lambda>c. if c = old then new else c) s"
  by (induction s) (simp_all add: replace_char_def)

lemma rev_split_while: "xs = rev (dropWhile P (rev xs)) @ rev (takeWhile P (rev xs))"
proof -
  have "rev (rev xs) = rev (takeWhile P (rev xs) @ dropWhile P (rev xs))"
    by (simp only: takeWhile_dropWhile_id)
  then show ?thesis by (simp only: rev_rev_ident rev_append)
qed

lemma strip_decomp:
  "\<exists>l r. s = l @ strip s @ r \<and> (\<forall>c\<in>set l. isspace c) \<and> (\<forall>c\<in>set r. isspace c)"
proof -
  let ?l = "takeWhile isspace s" and ?m = "dropWhile isspace s"
  let ?r = "rev (takeWhile isspace (rev ?m))"
  have "?m = strip s @ ?r"
    unfolding strip_def by (rule rev_split_while)
  then have "s = ?l @ strip s @ ?r" by (metis takeWhile_dropWhile_id)
  moreover have "\<forall>c\<in>set ?l. isspace c" by (auto dest: set_takeWhileD)
  moreover have "\<forall>c\<in>set ?r. isspace c" by (auto dest: set_takeWhileD)
  ultimately show ?thesis by blast
qed

lemma strip_trimmed:
  assumes "strip s \<noteq> []"
  shows "\<not> isspace (hd (strip s)) \<and> \<not> isspace (last (strip s))"
proof -
  let ?m = "dropWhile isspace s"
  let ?t = "dropWhile isspace (rev ?m)"
  from assms have t: "?t \<noteq> []" by (simp add: strip_def)
  then have h: "\<not> isspace (hd ?t)" by (rule hd_dropWhile)
  have l: "last (strip s) = hd ?t" using t by (simp add: strip_def last_rev)
  have "?m \<noteq> []"
  proof
    assume "?m = []"
    then have "?t = []" by (simp only: rev.simps(1) dropWhile.simps(1))
    with t show False by simp
  qed
  then have hm: "\<not> isspace (hd ?m)" by (rule hd_dropWhile)
  have "?m = rev ?t @ rev (takeWhile isspace (rev ?m))" by (rule rev_split_while)
  then have "hd ?m = hd (rev ?t)" using t by (metis hd_append2 rev_is_Nil_conv)
  with hm have "\<not> isspace (hd (strip s))" by (simp add: strip_def)
  with h l show ?thesis by simp
qed

subsection \<open>The loop over the events of a block\<close>

lemma events_loop_append:
  "events_loop y (pre @ rest) sem =
     (case events_loop y pre sem of Inl e \<Rightarrow> Inl e | Inr mid \<Rightarrow> events_loop y rest mid)"
  by (induction pre arbitrary: sem) (simp_all split: sum.splits)

lemma events_loop_name:
  "events_loop y evs sem = Inr sem' \<Longrightarrow> name sem' = name sem"
proof (induction evs arbitrary: sem)
  case Nil
  then show ?case by simp
next
  case (Cons t evs)
  then show ?case by (fastforce split: if_splits sum.splits)
qed

lemma events_loop_keeps_start:
  assumes "events_loop y evs sem = Inr sem'" "\<forall>t\<in>set evs. \<not> is_start_line t"
  shows "start_date sem' = start_date sem"
  using assms
proof (induction evs arbitrary: sem)
  case Nil
  then show ?case by simp
next
  case (Cons t evs)
  then show ?case by (fastforce split: if_splits sum.splits)
qed

lemma events_loop_keeps_end:
  assumes "events_loop y evs sem = Inr sem'"
    and "\<forall>t\<in>set evs. is_start_line t \<or> \<not> is_end_line (name sem) t"
  shows "end_date sem' = end_date sem"
  using assms
proof (induction evs arbitrary: sem)
  case Nil
  then show ?case by simp
next
  case (Cons t evs)
  then show ?case by (fastforce split: if_splits sum.splits)
qed

text \<open>
  What the loop does with a line that contains \<^verbatim>\<open>Classes start\<close>: it parses the date
  token of the line, a space and the text of the year heading as day, abbreviated month
  name and year, stores the result with the Brisbane zone as the start date, and ends with
  the error when the text does not parse. The date token \<open>date_str line\<close> is what is left
  of the text in front of the first occurrence of the separator \<open>dash\<close> (all of the line
  when it has none) once every no-break space is replaced by a space and the white space
  at both ends is removed.
\<close>

lemma start_line_step:
  assumes "is_start_line line"
  shows "events_loop year_text (line # rest) semester =
           (case strptime_dbY (date_str line @ str '' '' @ year_text) of
              Inl e \<Rightarrow> Inl e
            | Inr dt \<Rightarrow>
                events_loop year_text rest
                  (semester\<lparr>start_date := Some (dt\<lparr>tzinfo := Some Australia_Brisbane\<rparr>)\<rparr>))
       \<and> (\<exists>before tail l r.
            line = before @ tail \<and> (tail = [] \<or> startswith tail dash) \<and>
            (\<forall>k<length before. \<not> startswith (drop k line) dash) \<and>
            map (\<lambda>c. if c = 160 then 32 else c) before = l @ date_str line @ r \<and>
            (\<forall>c\<in>set l. isspace c) \<and> (\<forall>c\<in>set r. isspace c) \<and>
            (date_str line \<noteq> [] \<longrightarrow> \<not> isspace (hd (date_str line)) \<and> \<not> isspace (last (date_str line))))"
proof -
  let ?before = "split_head dash line"
  let ?m = "map (\<lambda>c. if c = 160 then 32 else c) ?before"
  have ds: "date_str line = strip ?m"
    by (simp add: date_str_def str_def replace_char_single)
  from split_head_prefix[of line dash] obtain tail where
    t: "line = ?before @ tail" "tail = [] \<or> startswith tail dash" by blast
  have f: "\<forall>k<length ?before. \<not> startswith (drop k line) dash"
    by (simp add: split_head_first)
  from strip_decomp[of ?m] obtain l r where
    lr: "?m = l @ date_str line @ r" "\<forall>c\<in>set l. isspace c" "\<forall>c\<in>set r. isspace c"
    unfolding ds by blast
  have tr: "date_str line \<noteq> [] \<longrightarrow> \<not> isspace (hd (date_str line)) \<and> \<not> isspace (last (date_str line))"
    unfolding ds using strip_trimmed[of ?m] by blast
  have step: "events_loop year_text (line # rest) semester =
           (case strptime_dbY (date_str line @ str '' '' @ year_text) of
              Inl e \<Rightarrow> Inl e
            | Inr dt \<Rightarrow>
                events_loop year_text rest
                  (semester\<lparr>start_date := Some (dt\<lparr>tzinfo := Some Australia_Brisbane\<rparr>)\<rparr>))"
    using assms by (simp add: get_date_def split: sum.splits)
  from t f lr tr have "\<exists>before tail l r.
            line = before @ tail \<and> (tail = [] \<or> startswith tail dash) \<and>
            (\<forall>k<length before. \<not> startswith (drop k line) dash) \<and>
            map (\<lambda>c. if c = 160 then 32 else c) before = l @ date_str line @ r \<and>
            (\<forall>c\<in>set l. isspace c) \<and> (\<forall>c\<in>set r. isspace c) \<and>
            (date_str line \<noteq> [] \<longrightarrow> \<not> isspace (hd (date_str line)) \<and> \<not> isspace (last (date_str line)))"
    by blast
  with step show ?thesis by blast
qed


text \<open>
  Claim C5. The separator the loop splits at is not an en dash: it is the three characters
  that the bytes of an en dash give when read in the wrong encoding. A line that contains
  \<^verbatim>\<open>Classes start\<close> and has its date in front of an en dash, U+2013, is therefore not
  split: its date token is the whole line, the parse raises \<^verbatim>\<open>ValueError\<close>, and so does
  \<^verbatim>\<open>get_semester_times\<close> on a page with such a block. The same line written with the
  three characters gives the 26th of February of the year of the heading.
\<close>

theorem en_dash_line_not_split:
  "is_start_line en_dash_start_line
   \<and> date_str en_dash_start_line = en_dash_start_line
   \<and> events_loop (str ''2024'') [en_dash_start_line] blank_semester_1 = Inl ValueError
   \<and> get_semester_times en_dash_doc = Inl ValueError
   \<and> events_loop (str ''2024'') [nbsp_start_line] blank_semester_1
       = Inr \<lparr>name = str ''Semester 1'', start_date = Some (brisbane_date 2024 2 26), end_date = None\<rparr>
   \<and> events_loop (str ''2025'') [nbsp_start_line] blank_semester_1
       = Inr \<lparr>name = str ''Semester 1'', start_date = Some (brisbane_date 2025 2 26), end_date = None\<rparr>"
  by (simp add: en_dash_doc_def soup_defs eval_defs)

text \<open>
  Claim C10. Let the loop over the lines \<open>pre @ line # post\<close> of a block return the
  semester \<open>sem'\<close>. If \<open>line\<close> contains \<^verbatim>\<open>Classes start\<close> and no later line does, the
  start date of \<open>sem'\<close> is the date of \<open>line\<close>. If \<open>line\<close> is an end line (it contains an
  end marker and not \<^verbatim>\<open>Classes start\<close>) and no later line is one, the end date of
  \<open>sem'\<close> is the date of \<open>line\<close>. If \<open>line\<close> contains both \<^verbatim>\<open>Classes start\<close> and an
  end marker and no later line is an end line, the end date of \<open>sem'\<close> is the one stored
  before \<open>line\<close>: the line has set the start date only.
\<close>

theorem last_marker_line_wins:
  assumes "events_loop y (pre @ line # post) sem = Inr sem'"
  shows "(is_start_line line \<and> (\<forall>t\<in>set post. \<not> is_start_line t)
            \<longrightarrow> (\<exists>dt. get_date line y = Inr dt \<and> start_date sem' = Some dt))
       \<and> (\<not> is_start_line line \<and> is_end_line (name sem) line
            \<and> (\<forall>t\<in>set post. is_start_line t \<or> \<not> is_end_line (name sem) t)
            \<longrightarrow> (\<exists>dt. get_date line y = Inr dt \<and> end_date sem' = Some dt))
       \<and> (is_start_line line \<and> is_end_line (name sem) line
            \<and> (\<forall>t\<in>set post. is_start_line t \<or> \<not> is_end_line (name sem) t)
            \<longrightarrow> (\<exists>mid. events_loop y pre sem = Inr mid \<and> end_date sem' = end_date mid))"
proof -
  from assms obtain mid where mid: "events_loop y pre sem = Inr mid"
    and rest: "events_loop y (line # post) mid = Inr sem'"
    by (auto simp: events_loop_append split: sum.splits)
  have nm: "name mid = name sem" by (rule events_loop_name[OF mid])
  have a: "\<exists>dt. get_date line y = Inr dt \<and> start_date sem' = Some dt"
    if "is_start_line line" "\<forall>t\<in>set post. \<not> is_start_line t"
  proof -
    from rest that(1) obtain dt where dt: "get_date line y = Inr dt"
      and p: "events_loop y post (mid\<lparr>start_date := Some dt\<rparr>) = Inr sem'"
      by (auto split: sum.splits)
    from events_loop_keeps_start[OF p that(2)] dt show ?thesis by simp
  qed
  have b: "\<exists>dt. get_date line y = Inr dt \<and> end_date sem' = Some dt"
    if "\<not> is_start_line line" "is_end_line (name sem) line"
      "\<forall>t\<in>set post. is_start_line t \<or> \<not> is_end_line (name sem) t"
  proof -
    from rest that(1,2) nm obtain dt where dt: "get_date line y = Inr dt"
      and p: "events_loop y post (mid\<lparr>end_date := Some dt\<rparr>) = Inr sem'"
      by (auto split: sum.splits)
    from that(3) nm have "\<forall>t\<in>set post. is_start_line t \<or> \<not> is_end_line (name (mid\<lparr>end_date := Some dt\<rparr>)) t"
      by simp
    from events_loop_keeps_end[OF p this] dt show ?thesis by simp
  qed
  have c: "\<exists>mid. events_loop y pre sem = Inr mid \<and> end_date sem' = end_date mid"
    if "is_start_line line" "\<forall>t\<in>set post. is_start_line t \<or> \<not> is_end_line (name sem) t"
  proof -
    from rest that(1) obtain dt where
      p: "events_loop y post (mid\<lparr>start_date := Some dt\<rparr>) = Inr sem'"
      by (auto split: sum.splits)
    from that(2) nm have "\<forall>t\<in>set post. is_start_line t \<or> \<not> is_end_line (name (mid\<lparr>start_date := Some dt\<rparr>)) t"
      by simp
    from events_loop_keeps_end[OF p this] mid show ?thesis by simp
  qed
  from a b c show ?thesis by blast
qed

theorem last_marker_line_wins_witness:
  "events_loop (str ''2024'') [start_line_feb, both_markers_line] blank_semester_1
     = Inr \<lparr>name = str ''Semester 1'', start_date = Some (brisbane_date 2024 3 4), end_date = None\<rparr>
   \<and> events_loop (str ''2024'') [start_line_feb, both_markers_line, end_line_jun2, end_line_jun9]
         blank_semester_1
     = Inr \<lparr>name = str ''Semester 1'', start_date = Some (brisbane_date 2024 3 4),
            end_date = Some (brisbane_date 2024 6 9)\<rparr>"
proof -
  let ?y = "str ''2024''"
  let ?s1 = "\<lparr>name = str ''Semester 1'', start_date = Some (brisbane_date 2024 3 4), end_date = None\<rparr>"
  let ?s2 = "\<lparr>name = str ''Semester 1'', start_date = Some (brisbane_date 2024 3 4),
              end_date = Some (brisbane_date 2024 6 9)\<rparr>"
  have e1: "events_loop ?y ([start_line_feb] @ both_markers_line # []) blank_semester_1 = Inr ?s1"
    by (simp add: eval_defs)
  have e2: "events_loop ?y ([start_line_feb, both_markers_line, end_line_jun2] @ end_line_jun9 # [])
              blank_semester_1 = Inr ?s2"
    by (simp add: eval_defs)
  have m: "is_start_line both_markers_line" "is_end_line (name blank_semester_1) both_markers_line"
    "\<not> is_start_line end_line_jun9" "is_end_line (name blank_semester_1) end_line_jun9"
    by (simp_all add: string_defs line_defs)
  from last_marker_line_wins[OF e1] m
  have "\<exists>dt. get_date both_markers_line ?y = Inr dt \<and> start_date ?s1 = Some dt"
    and "\<exists>mid. events_loop ?y [start_line_feb] blank_semester_1 = Inr mid \<and> end_date ?s1 = end_date mid"
    by simp_all
  moreover from last_marker_line_wins[OF e2] m
  have "\<exists>dt. get_date end_line_jun9 ?y = Inr dt \<and> end_date ?s2 = Some dt"
    by simp
  ultimately show ?thesis using e1 e2 by simp
qed

subsection \<open>The loop over the blocks of a year\<close>

lemma accordion_item_not_h3: "is_accordion_item e \<Longrightarrow> \<not> is_tag (str ''h3'') e"
  by (cases e) (auto simp: is_accordion_item_def is_tag_def str_def)

lemma elements_loop_break:
  assumes "is_accordion_item e"
    and "find (is_tag (str ''h4'')) (descendants e) = Some h4"
    and "get_text h4 \<noteq> str ''Semester 1''" "get_text h4 \<noteq> str ''Semester 2''"
  shows "elements_loop y (e # rest) acc = Inr acc"
  using assms accordion_item_not_h3[OF assms(1)] by simp

text \<open>
  Claim C6. When the scan of a year meets an accordion block whose title is neither
  \<^verbatim>\<open>Semester 1\<close> nor \<^verbatim>\<open>Semester 2\<close>, it stops with the semesters collected so far:
  the result is that of the scan of the elements in front of the block, whatever the block
  and the elements after it contain.
\<close>

theorem other_title_ends_year:
  assumes "is_accordion_item e"
    and "find (is_tag (str ''h4'')) (descendants e) = Some h4"
    and "get_text h4 \<noteq> str ''Semester 1''" "get_text h4 \<noteq> str ''Semester 2''"
  shows "elements_loop y (e # rest) acc = Inr acc
       \<and> elements_loop y (pre @ e # rest) acc = elements_loop y pre acc"
proof -
  have b: "elements_loop y (e # rest) acc' = Inr acc'" for acc'
    by (rule elements_loop_break[OF assms])
  have "elements_loop y (pre @ e # rest) acc = elements_loop y pre acc"
  proof (induction pre arbitrary: acc)
    case Nil
    show ?case using b by simp
  next
    case (Cons p pre)
    show ?case
      by (simp add: Cons.IH Let_def split: option.splits sum.splits)
  qed
  with b show ?thesis by simp
qed

theorem other_title_ends_year_witness:
  "elements_loop (str ''2024'') (concat (map tags [summer_item, semester_1_item])) [] = Inr []
   \<and> elements_loop (str ''2024'') (tags semester_1_item) [] = Inr [semester_1_2024]"
proof -
  let ?rest = "descendants summer_item @ tags semester_1_item"
  have c: "concat (map tags [summer_item, semester_1_item]) = [] @ summer_item # ?rest"
    by (simp add: summer_item_def semester_1_item_def accordion_item_def descendants_def)
  have a: "is_accordion_item summer_item"
    by (simp add: summer_item_def soup_defs)
  have h: "find (is_tag (str ''h4'')) (descendants summer_item)
             = Some (Tag (str ''h4'') None [NavigableString (str ''Summer Semester'')])"
    by (simp add: summer_item_def soup_defs str_def)
  have n: "get_text (Tag (str ''h4'') None [NavigableString (str ''Summer Semester'')]) \<noteq> str ''Semester 1''"
    "get_text (Tag (str ''h4'') None [NavigableString (str ''Summer Semester'')]) \<noteq> str ''Semester 2''"
    by (simp_all add: str_def)
  have s: "elements_loop (str ''2024'') (tags semester_1_item) [] = Inr [semester_1_2024]"
    by (simp add: semester_1_item_def semester_1_2024_def soup_defs eval_defs)
  from other_title_ends_year[OF a h n, of "str ''2024''" ?rest "[]" "[]"] c s
  show ?thesis by simp
qed

subsection \<open>Blocks with a missing date\<close>

text \<open>
  Claim C1. A \<^verbatim>\<open>Semester 1\<close> block with an end line and no \<^verbatim>\<open>Classes start\<close> line
  does not make \<^verbatim>\<open>get_semester_times\<close> fail: it returns a semester whose start date is
  \<^verbatim>\<open>None\<close>, and \<^verbatim>\<open>get_semester_week\<close> on that list raises a \<^verbatim>\<open>TypeError\<close>.
\<close>

theorem missing_start_date_emitted:
  "get_semester_times missing_start_doc
     = Inr [\<lparr>name = str ''Semester 1'', start_date = None, end_date = Some (brisbane_date 2024 6 2)\<rparr>]
   \<and> get_semester_week
       [\<lparr>name = str ''Semester 1'', start_date = None, end_date = Some (brisbane_date 2024 6 2)\<rparr>]
       (brisbane_date 2024 3 4) = Inl TypeError"
  by (simp add: missing_start_doc_def soup_defs eval_defs)

subsection \<open>Blocks whose dates are out of order\<close>

text \<open>
  Claim C2, as stated, fails: a block whose start line is dated after its end line is
  returned as it is, with a start date later than the end date.
\<close>

theorem inverted_dates_counterexample:
  "get_semester_times inverted_doc = Inr [inverted_2024]
   \<and> start_date inverted_2024 = Some (brisbane_date 2024 7 22)
   \<and> end_date inverted_2024 = Some (brisbane_date 2024 6 2)
   \<and> \<not> dt_tuple (brisbane_date 2024 7 22) \<le> dt_tuple (brisbane_date 2024 6 2)"
  by (simp add: inverted_doc_def inverted_2024_def soup_defs eval_defs dt_tuple_def)

lemma gsw_cons_skip:
  assumes "typed_semester (tzinfo d) s" "\<not> in_range s d"
  shows "get_semester_week (s # rest) d = get_semester_week rest d"
  using gsw_step[OF assms(1)] assms(2) by simp

lemma mk_datetime_valid:
  assumes "mk_datetime y m d = Inr dt"
  shows "valid_datetime dt"
  using assms by (auto simp: mk_datetime_def valid_datetime_def split: if_splits)

lemma finish_match_valid:
  assumes "finish_match ms = Inr dt"
  shows "valid_datetime dt"
  using assms
  by (auto simp: finish_match_def split: list.splits if_splits dest: mk_datetime_valid)

lemma get_date_parsed:
  assumes "get_date line y = Inr dt"
  shows "parsed_date dt"
proof -
  from assms obtain dt0 where a: "strptime_dbY (date_str line @ str '' '' @ y) = Inr dt0"
    and b: "dt = dt0\<lparr>tzinfo := Some Australia_Brisbane\<rparr>"
    by (auto simp: get_date_def split: sum.splits)
  from a have "valid_datetime dt0"
    unfolding strptime_dbY_def by (rule finish_match_valid)
  with b show ?thesis by (simp add: parsed_date_def valid_datetime_def)
qed

lemma events_loop_parsed:
  assumes "events_loop y evs sem = Inr sem'" "parsed_semester sem"
  shows "parsed_semester sem'"
  using assms
proof (induction evs arbitrary: sem)
  case Nil
  then show ?case by simp
next
  case (Cons t evs)
  show ?case
  proof (cases "is_start_line t \<or> is_end_line (name sem) t")
    case False
    with Cons show ?thesis by simp
  next
    case True
    with Cons.prems(1) obtain dt where dt: "get_date t y = Inr dt"
      and r: "events_loop y evs (if is_start_line t then sem\<lparr>start_date := Some dt\<rparr>
                                  else sem\<lparr>end_date := Some dt\<rparr>) = Inr sem'"
      by (auto split: sum.splits if_splits)
    from get_date_parsed[OF dt] Cons.prems(2)
    have "parsed_semester (if is_start_line t then sem\<lparr>start_date := Some dt\<rparr>
                           else sem\<lparr>end_date := Some dt\<rparr>)"
      by (simp add: parsed_semester_def)
    from Cons.IH[OF r this] show ?thesis .
  qed
qed

lemma elements_loop_step:
  assumes "elements_loop y (e # els) acc = Inr acc'"
  shows "acc' = acc \<or> elements_loop y els acc = Inr acc' \<or>
         (\<exists>sem. parsed_semester sem \<and> elements_loop y els (acc @ [sem]) = Inr acc')"
proof -
  have blank: "parsed_semester \<lparr>name = n, start_date = None, end_date = None\<rparr>" for n
    by (simp add: parsed_semester_def)
  from assms show ?thesis
    by (auto simp: Let_def split: if_splits option.splits sum.splits
        dest!: events_loop_parsed[OF _ blank])
qed

lemma elements_loop_parsed:
  assumes "elements_loop y els acc = Inr acc'" "\<forall>s\<in>set acc. parsed_semester s"
  shows "\<forall>s\<in>set acc'. parsed_semester s"
  using assms
proof (induction els arbitrary: acc)
  case Nil
  then show ?case by simp
next
  case (Cons e els)
  from elements_loop_step[OF Cons.prems(1)]
  consider "acc' = acc" | "elements_loop y els acc = Inr acc'"
    | sem where "parsed_semester sem" "elements_loop y els (acc @ [sem]) = Inr acc'"
    by blast
  then show ?case
  proof cases
    case 1
    with Cons.prems(2) show ?thesis by simp
  next
    case 2
    from Cons.IH[OF this Cons.prems(2)] show ?thesis .
  next
    case 3
    from 3(1) Cons.prems(2) have "\<forall>s\<in>set (acc @ [sem]). parsed_semester s" by simp
    from Cons.IH[OF 3(2) this] show ?thesis .
  qed
qed

lemma years_loop_parsed:
  assumes "years_loop els acc = Inr acc'" "\<forall>s\<in>set acc. parsed_semester s"
  shows "\<forall>s\<in>set acc'. parsed_semester s"
  using assms
proof (induction els arbitrary: acc)
  case Nil
  then show ?case by simp
next
  case (Cons e els)
  show ?case
  proof (cases "is_tag (str ''h3'') e")
    case False
    with Cons.prems have "years_loop els acc = Inr acc'" by simp
    from Cons.IH[OF this Cons.prems(2)] show ?thesis .
  next
    case True
    with Cons.prems(1) obtain mid where m: "elements_loop (get_text e) els acc = Inr mid"
      and r: "years_loop els mid = Inr acc'"
      by (auto split: sum.splits)
    from elements_loop_parsed[OF m Cons.prems(2)] have "\<forall>s\<in>set mid. parsed_semester s" .
    from Cons.IH[OF r this] show ?thesis .
  qed
qed

lemma get_semester_times_parsed:
  assumes "get_semester_times soup = Inr semesters" "s \<in> set semesters"
  shows "parsed_semester s"
  using years_loop_parsed[of "concat (map tags soup)" "[]" semesters] assms
  by (simp add: get_semester_times_def)

text \<open>
  Claim C2, amended. \<^verbatim>\<open>get_semester_times\<close> does not compare the two dates of a block.
  A semester it returns whose start date is later than its end date contains no date, and
  \<^verbatim>\<open>get_semester_week\<close>, asked about a date in the Brisbane zone, gives the same answer
  as for the list without that semester.
\<close>

theorem parsed_inverted_semester_skipped:
  assumes "get_semester_times soup = Inr (pre @ s # post)"
    and "start_date s = Some a" "end_date s = Some b" "\<not> dt_tuple a \<le> dt_tuple b"
    and "tzinfo d = Some Australia_Brisbane"
  shows "\<not> in_range s d
       \<and> get_semester_week (pre @ s # post) d = get_semester_week (pre @ post) d"
proof -
  have "parsed_semester s"
    by (rule get_semester_times_parsed[OF assms(1)]) simp
  with assms(2,3,5) have z: "tzinfo a = tzinfo d" "tzinfo b = tzinfo d"
    by (simp_all add: parsed_semester_def parsed_date_def)
  have n: "\<not> in_range s d"
    using assms(2-4) by (auto simp: in_range_def dest: order_trans)
  have t: "typed_semester (tzinfo d) s"
    using assms(2,3) z by (simp add: typed_semester_def)
  have "get_semester_week (pre @ s # post) d = get_semester_week (pre @ post) d"
  proof (induction pre)
    case Nil
    show ?case using gsw_cons_skip[OF t n] by simp
  next
    case (Cons p pre)
    then show ?case by (simp split: sum.splits bool.splits)
  qed
  with n show ?thesis by simp
qed

theorem parsed_inverted_semester_skipped_witness:
  "get_semester_times inverted_doc = Inr [inverted_2024]
   \<and> get_semester_week [inverted_2024] (brisbane_date 2024 7 1) = Inr None"
proof -
  have g: "get_semester_times inverted_doc = Inr ([] @ inverted_2024 # [])"
    by (simp add: inverted_doc_def inverted_2024_def soup_defs eval_defs)
  have i: "start_date inverted_2024 = Some (brisbane_date 2024 7 22)"
    "end_date inverted_2024 = Some (brisbane_date 2024 6 2)"
    "\<not> dt_tuple (brisbane_date 2024 7 22) \<le> dt_tuple (brisbane_date 2024 6 2)"
    "tzinfo (brisbane_date 2024 7 1) = Some Australia_Brisbane"
    by (simp_all add: inverted_2024_def brisbane_date_def dt_tuple_def)
  from parsed_inverted_semester_skipped[OF g i] g show ?thesis by simp
qed

end
